theory Spec2Isabelle
  imports Complex_Main "HOL-Library.Log_Nat" "HOL-Library.Word"
begin

section \<open>The C++ type \<open>double\<close>\<close>

text \<open>
  \<open>sdl-gravity-square.cc\<close> computes on \<open>double\<close>. A \<open>double\<close> is modelled as an IEEE-754
  binary64 datum: not-a-number, one of the two infinities, or a finite value, kept as the
  rational number it denotes. Every arithmetic operation computes the exact rational result
  and rounds it once, to nearest with ties to even (the default rounding mode), to a
  significand of 53 bits with the exponent range of binary64, subnormals included.

  The two zeros \<open>+0\<close> and \<open>-0\<close> are one value here. The program cannot tell them apart: it
  only adds, multiplies, negates, compares and truncates to \<open>int\<close>, and never divides.
\<close>

datatype double = NaN | PInf | NInf | Fin rat

text \<open>\<open>floor_log2 a\<close> is the \<open>k\<close> with \<open>2^k \<le> a < 2^(k+1)\<close>, for \<open>a > 0\<close>.\<close>

definition floor_log2 :: "rat \<Rightarrow> int" where
  "floor_log2 a = (if 1 \<le> a then bitlen \<lfloor>a\<rfloor> - 1 else - bitlen (\<lceil>1 / a\<rceil> - 1))"

text \<open>
  The exponent of the unit in the last place at \<open>a\<close>: 52 below the exponent of \<open>a\<close>, and
  never below \<open>-1074\<close>, the spacing of the subnormal numbers.
\<close>

definition ulp_exp :: "rat \<Rightarrow> int" where
  "ulp_exp a = max (floor_log2 \<bar>a\<bar> - 52) (- 1074)"

text \<open>Rounding to the nearest integer, a tie going to the even neighbour.\<close>

definition rne :: "rat \<Rightarrow> int" where
  "rne q = (let f = \<lfloor>q\<rfloor>; d = q - of_int f in
     if d < 1 / 2 then f else if 1 / 2 < d then f + 1 else if even f then f else f + 1)"

text \<open>
  Rounding an exact result to binary64. The largest finite value is \<open>(2^53 - 1) * 2^971\<close>;
  a result that rounds to \<open>2^1024\<close> or beyond in magnitude overflows to an infinity.
\<close>

definition round64 :: "rat \<Rightarrow> double" where
  "round64 a = (if a = 0 then Fin 0 else
     let e = ulp_exp a; m = rne (a / 2 powi e) in
     if 971 < e \<or> (e = 971 \<and> 2 ^ 53 \<le> \<bar>m\<bar>) then (if 0 < a then PInf else NInf)
     else Fin (of_int m * 2 powi e))"

text \<open>A floating literal of the source, such as \<open>0.995\<close>, is the nearest binary64 value.\<close>

definition lit :: "rat \<Rightarrow> double" where
  "lit q = round64 q"

text \<open>The implicit conversion of an \<open>int\<close> to \<open>double\<close>.\<close>

definition double_of_int :: "int \<Rightarrow> double" where
  "double_of_int i = round64 (of_int i)"

fun fneg :: "double \<Rightarrow> double" where
  "fneg NaN = NaN"
| "fneg PInf = NInf"
| "fneg NInf = PInf"
| "fneg (Fin a) = Fin (- a)"

fun fadd :: "double \<Rightarrow> double \<Rightarrow> double" where
  "fadd (Fin a) (Fin b) = round64 (a + b)"
| "fadd NaN _ = NaN"
| "fadd _ NaN = NaN"
| "fadd PInf NInf = NaN"
| "fadd NInf PInf = NaN"
| "fadd PInf _ = PInf"
| "fadd _ PInf = PInf"
| "fadd NInf _ = NInf"
| "fadd _ NInf = NInf"

definition fsub :: "double \<Rightarrow> double \<Rightarrow> double" where
  "fsub a b = fadd a (fneg b)"

fun fmul :: "double \<Rightarrow> double \<Rightarrow> double" where
  "fmul (Fin a) (Fin b) = round64 (a * b)"
| "fmul NaN _ = NaN"
| "fmul _ NaN = NaN"
| "fmul (Fin a) i = (if a = 0 then NaN else if 0 < a then i else fneg i)"
| "fmul i (Fin b) = (if b = 0 then NaN else if 0 < b then i else fneg i)"
| "fmul PInf i = i"
| "fmul NInf i = fneg i"

text \<open>The comparisons; each is false as soon as an operand is not a number.\<close>

fun fle :: "double \<Rightarrow> double \<Rightarrow> bool" where
  "fle (Fin a) (Fin b) = (a \<le> b)"
| "fle NaN _ = False"
| "fle _ NaN = False"
| "fle NInf _ = True"
| "fle _ PInf = True"
| "fle _ _ = False"

fun flt :: "double \<Rightarrow> double \<Rightarrow> bool" where
  "flt (Fin a) (Fin b) = (a < b)"
| "flt NaN _ = False"
| "flt _ NaN = False"
| "flt PInf _ = False"
| "flt _ NInf = False"
| "flt _ _ = True"

definition fge :: "double \<Rightarrow> double \<Rightarrow> bool" where
  "fge a b = fle b a"

definition fgt :: "double \<Rightarrow> double \<Rightarrow> bool" where
  "fgt a b = flt b a"

text \<open>The operator \<open>==\<close> on \<open>double\<close>.\<close>

definition feq :: "double \<Rightarrow> double \<Rightarrow> bool" where
  "feq a b = (a \<noteq> NaN \<and> a = b)"

text \<open>The values of the type: a finite one is a fixed point of the rounding.\<close>

fun is_double :: "double \<Rightarrow> bool" where
  "is_double (Fin a) = (round64 a = Fin a)"
| "is_double _ = True"

section \<open>The data of the program\<close>

text \<open>\<open>struct Vec2 { double x; double y; }\<close>, with \<open>Vec2()\<close> the pair of zeros.\<close>

record Vec2 =
  vec_x :: double
  vec_y :: double

definition Vec2_default :: Vec2 where
  "Vec2_default = \<lparr>vec_x = lit 0.0, vec_y = lit 0.0\<rparr>"

text \<open>\<open>struct Color\<close>: four \<open>Uint8\<close> channels, white and opaque by default.\<close>

record Color =
  red :: "8 word"
  green :: "8 word"
  blue :: "8 word"
  alpha :: "8 word"

definition Color_default :: Color where
  "Color_default = \<lparr>red = 0xff, green = 0xff, blue = 0xff, alpha = 0xff\<rparr>"

text \<open>\<open>class Square\<close>, with its four private members.\<close>

record Square =
  m_size :: Vec2
  m_position :: Vec2
  m_velocity :: Vec2
  m_color :: Color

text \<open>The constructor \<open>Square(Vec2 size, Vec2 pos, Vec2 v)\<close>; the colour keeps its default.\<close>

definition new_Square :: "Vec2 \<Rightarrow> Vec2 \<Rightarrow> Vec2 \<Rightarrow> Square" where
  "new_Square sz pos v = \<lparr>m_size = sz, m_position = pos, m_velocity = v, m_color = Color_default\<rparr>"

definition setSize :: "Vec2 \<Rightarrow> Square \<Rightarrow> Square" where
  "setSize sz s = s\<lparr>m_size := sz\<rparr>"

definition setPosX :: "double \<Rightarrow> Square \<Rightarrow> Square" where
  "setPosX v s = s\<lparr>m_position := (m_position s)\<lparr>vec_x := v\<rparr>\<rparr>"

definition setPosY :: "double \<Rightarrow> Square \<Rightarrow> Square" where
  "setPosY v s = s\<lparr>m_position := (m_position s)\<lparr>vec_y := v\<rparr>\<rparr>"

definition setVelocity :: "Vec2 \<Rightarrow> Square \<Rightarrow> Square" where
  "setVelocity v s = s\<lparr>m_velocity := v\<rparr>"

definition setColor :: "Color \<Rightarrow> Square \<Rightarrow> Square" where
  "setColor c s = s\<lparr>m_color := c\<rparr>"

definition applyGravity :: "double \<Rightarrow> Square \<Rightarrow> Square" where
  "applyGravity g s = s\<lparr>m_velocity := (m_velocity s)\<lparr>vec_y := fadd (vec_y (m_velocity s)) g\<rparr>\<rparr>"

definition applyAirResistance :: "double \<Rightarrow> Square \<Rightarrow> Square" where
  "applyAirResistance k s =
     s\<lparr>m_velocity := (m_velocity s)\<lparr>vec_x := fmul (vec_x (m_velocity s)) k\<rparr>\<rparr>"

definition dampX :: "double \<Rightarrow> Square \<Rightarrow> Square" where
  "dampX d s = s\<lparr>m_velocity := (m_velocity s)\<lparr>vec_x := fmul (vec_x (m_velocity s)) (fneg d)\<rparr>\<rparr>"

definition dampY :: "double \<Rightarrow> Square \<Rightarrow> Square" where
  "dampY d s = s\<lparr>m_velocity := (m_velocity s)\<lparr>vec_y := fmul (vec_y (m_velocity s)) (fneg d)\<rparr>\<rparr>"

definition updatePosition :: "Square \<Rightarrow> Square" where
  "updatePosition s =
     s\<lparr>m_position := \<lparr>vec_x = fadd (vec_x (m_position s)) (vec_x (m_velocity s)),
                       vec_y = fadd (vec_y (m_position s)) (vec_y (m_velocity s))\<rparr>\<rparr>"

text \<open>
  A square of the program holds values of the type \<open>double\<close> in its three vectors.
\<close>

definition is_Vec2 :: "Vec2 \<Rightarrow> bool" where
  "is_Vec2 v = (is_double (vec_x v) \<and> is_double (vec_y v))"

definition is_Square :: "Square \<Rightarrow> bool" where
  "is_Square s = (is_Vec2 (m_size s) \<and> is_Vec2 (m_position s) \<and> is_Vec2 (m_velocity s))"

text \<open>\<open>struct World\<close> and its default member initialisers.\<close>

record World =
  gravity :: double
  damping :: double
  air_resistance :: double

definition World_default :: World where
  "World_default = \<lparr>gravity = lit 0.5, damping = lit 0.9, air_resistance = lit 0.995\<rparr>"

definition gScreenWidth :: int where
  "gScreenWidth = 640"

definition gScreenHeight :: int where
  "gScreenHeight = 480"

definition gNumSquares :: nat where
  "gNumSquares = 4"

section \<open>Random numbers\<close>

text \<open>
  \<open>get_random_int\<close> draws from a \<open>std::uniform_int_distribution\<close> over \<open>[low, high]\<close>, fed by
  a static \<open>std::mt19937\<close>. The library promises a value in the closed range, for
  \<open>low \<le> high\<close>. The generator is modelled as the sequence of raw values it is still to
  produce; a draw uses the next one and maps it into the range. Every sequence is a possible
  generator, so a statement for all generators covers every outcome of the draws. How
  likely an outcome is plays no role.
\<close>

type_synonym rng = "nat \<Rightarrow> nat"

definition get_random_int :: "int \<Rightarrow> int \<Rightarrow> rng \<Rightarrow> int \<times> rng" where
  "get_random_int low high gen = (low + int (gen 0) mod (high - low + 1), \<lambda>n. gen (Suc n))"

text \<open>
  \<open>get_random_color\<close> starts from the default colour and assigns three channels; the
  assignment of an \<open>int\<close> to a \<open>Uint8\<close> keeps the low eight bits.
\<close>

definition get_random_color :: "rng \<Rightarrow> Color \<times> rng" where
  "get_random_color gen =
     (let color = Color_default;
          (r, gen1) = get_random_int 0 255 gen;
          color = color\<lparr>red := word_of_int r\<rparr>;
          (g, gen2) = get_random_int 0 255 gen1;
          color = color\<lparr>green := word_of_int g\<rparr>;
          (b, gen3) = get_random_int 0 255 gen2;
          color = color\<lparr>blue := word_of_int b\<rparr>
      in (color, gen3))"

definition get_random_velocity :: "rng \<Rightarrow> Vec2 \<times> rng" where
  "get_random_velocity gen =
     (let (a, gen1) = get_random_int (- 20) 20 gen;
          (b, gen2) = get_random_int (- 20) 20 gen1
      in (\<lparr>vec_x = double_of_int a, vec_y = double_of_int b\<rparr>, gen2))"

section \<open>The per-frame update of one square\<close>

text \<open>
  The body of the loop of \<open>update_squares\<close>, for the square the loop variable points to.
  It starts with gravity, air resistance and the move (lines 276 to 281).
\<close>

definition integrate :: "World \<Rightarrow> Square \<Rightarrow> Square" where
  "integrate w s0 =
     (let s = applyGravity (gravity w) s0;
          s = applyAirResistance (air_resistance w) s;
          s = updatePosition s
      in s)"

text \<open>The five booleans of lines 284 to 288, as functions of the square they are read from.\<close>

definition is_on_right_wall :: "Square \<Rightarrow> bool" where
  "is_on_right_wall s =
     fge (vec_x (m_position s)) (fsub (double_of_int gScreenWidth) (vec_x (m_size s)))"

definition is_on_left_wall :: "Square \<Rightarrow> bool" where
  "is_on_left_wall s = fle (vec_x (m_position s)) (double_of_int 0)"

definition is_on_wall :: "Square \<Rightarrow> bool" where
  "is_on_wall s = (is_on_right_wall s \<or> is_on_left_wall s)"

definition is_on_floor :: "Square \<Rightarrow> bool" where
  "is_on_floor s =
     fge (vec_y (m_position s)) (fsub (double_of_int gScreenHeight) (vec_y (m_size s)))"

definition is_on_ceiling :: "Square \<Rightarrow> bool" where
  "is_on_ceiling s = fle (vec_y (m_position s)) (double_of_int 0)"

text \<open>
  The whole loop body. The booleans are computed once, from the square \<open>p\<close> as it is after
  the move, and the three \<open>if\<close> statements that follow read those booleans. The world is
  the global \<open>gWorld\<close>; the generator is threaded through the places that draw a colour.
\<close>

definition update_square :: "World \<Rightarrow> Square \<Rightarrow> rng \<Rightarrow> Square \<times> rng" where
  "update_square w s0 gen0 =
     (let p = integrate w s0;
          on_right_wall = is_on_right_wall p;
          on_left_wall = is_on_left_wall p;
          on_wall = (on_right_wall \<or> on_left_wall);
          on_floor = is_on_floor p;
          on_ceiling = is_on_ceiling p;
          (s, gen) =
            (if on_wall then
               let s = (if on_left_wall then setPosX (double_of_int 0) p else p);
                   s = (if on_right_wall
                        then setPosX (fsub (double_of_int gScreenWidth) (vec_x (m_size s))) s
                        else s);
                   s = dampX (damping w) s;
                   (c, gen) = get_random_color gen0
               in (setColor c s, gen)
             else (p, gen0));
          (s, gen) =
            (if on_floor then
               let s = setPosY (fsub (double_of_int gScreenHeight) (vec_y (m_size s))) s in
               if fgt (vec_y (m_velocity s)) (lit 0.5) then
                 let s = dampY (damping w) s;
                     (c, gen) = get_random_color gen
                 in (setColor c s, gen)
               else
                 (setVelocity \<lparr>vec_x = fmul (vec_x (m_velocity s)) (lit 0.95),
                                vec_y = double_of_int 0\<rparr> s, gen)
             else (s, gen));
          (s, gen) =
            (if on_ceiling then
               let s = setPosY (double_of_int 0) s;
                   s = dampY (damping w) s;
                   (c, gen) = get_random_color gen
               in (setColor c s, gen)
             else (s, gen))
      in (s, gen))"

text \<open>
  The same step in the words of the specification: the move first, then the three
  corrections, each guarded by its condition on the moved square \<open>p\<close>, in the order wall,
  floor, ceiling.
\<close>

definition wall_correction :: "World \<Rightarrow> Square \<Rightarrow> Square \<times> rng \<Rightarrow> Square \<times> rng" where
  "wall_correction w p r =
     (let (s, gen) = r;
          s = (if is_on_left_wall p then setPosX (double_of_int 0) s else s);
          s = (if is_on_right_wall p
               then setPosX (fsub (double_of_int gScreenWidth) (vec_x (m_size s))) s else s);
          s = dampX (damping w) s;
          (c, gen) = get_random_color gen
      in (setColor c s, gen))"

definition floor_correction :: "World \<Rightarrow> Square \<times> rng \<Rightarrow> Square \<times> rng" where
  "floor_correction w r =
     (let (s, gen) = r;
          s = setPosY (fsub (double_of_int gScreenHeight) (vec_y (m_size s))) s
      in if fgt (vec_y (m_velocity s)) (lit 0.5) then
           let s = dampY (damping w) s;
               (c, gen) = get_random_color gen
           in (setColor c s, gen)
         else
           (setVelocity \<lparr>vec_x = fmul (vec_x (m_velocity s)) (lit 0.95),
                          vec_y = double_of_int 0\<rparr> s, gen))"

definition ceiling_correction :: "World \<Rightarrow> Square \<times> rng \<Rightarrow> Square \<times> rng" where
  "ceiling_correction w r =
     (let (s, gen) = r;
          s = setPosY (double_of_int 0) s;
          s = dampY (damping w) s;
          (c, gen) = get_random_color gen
      in (setColor c s, gen))"

definition update_square_spec :: "World \<Rightarrow> Square \<Rightarrow> rng \<Rightarrow> Square \<times> rng" where
  "update_square_spec w s0 gen0 =
     (let p = integrate w s0;
          r = (p, gen0);
          r = (if is_on_wall p then wall_correction w p r else r);
          r = (if is_on_floor p then floor_correction w r else r);
          r = (if is_on_ceiling p then ceiling_correction w r else r)
      in r)"

section \<open>The globals and the heap\<close>

text \<open>
  \<open>gSquares\<close> is a vector of pointers to squares made by \<open>new\<close>. A pointer is the number of
  the object it points to; objects are numbered in the order of their creation, so a
  number stands for one object for ever, also after \<open>delete\<close> has ended its life. The heap
  maps the live objects to their contents. \<open>gen_state\<close> is the static generator inside
  \<open>get_random_int\<close>. The handles of the window and the renderer are opaque; \<open>None\<close> is the
  null pointer. The global \<open>gSquare\<close> is never assigned and stays null.
\<close>

record globals =
  gWindow :: "nat option"
  gRenderer :: "nat option"
  gSquares :: "nat list"
  heap :: "nat \<rightharpoonup> Square"
  next_obj :: nat
  gWorld :: World
  gBackgroundColor :: Color
  gen_state :: rng

text \<open>
  The shape of the heap the program keeps: only objects already created are alive, and the
  vector holds pointers to live objects, each once.
\<close>

definition heap_ok :: "globals \<Rightarrow> bool" where
  "heap_ok st = (dom (heap st) \<subseteq> {..<next_obj st} \<and> set (gSquares st) \<subseteq> dom (heap st)
     \<and> distinct (gSquares st))"

text \<open>
  Two statements about sizes. \<open>squares_sized\<close>: every pointer of the vector leads to a
  square of size 100 by 100. \<open>sizes_kept st st'\<close>: of the objects created up to \<open>st\<close>, each
  is either dead in \<open>st'\<close> or alive in both with the same size.
\<close>

definition squares_sized :: "globals \<Rightarrow> bool" where
  "squares_sized st =
     list_all (\<lambda>ptr. map_option m_size (heap st ptr) = Some \<lparr>vec_x = Fin 100, vec_y = Fin 100\<rparr>)
       (gSquares st)"

definition sizes_kept :: "globals \<Rightarrow> globals \<Rightarrow> bool" where
  "sizes_kept st st' =
     (next_obj st \<le> next_obj st' \<and>
      (\<forall>ptr < next_obj st. heap st' ptr = None
         \<or> (heap st ptr \<noteq> None \<and> map_option m_size (heap st' ptr) = map_option m_size (heap st ptr))))"

text \<open>The globals when \<open>main\<close> starts; the generator seeds itself from the random device.\<close>

definition globals_start :: "rng \<Rightarrow> globals" where
  "globals_start seed =
     \<lparr>gWindow = None, gRenderer = None, gSquares = [], heap = Map.empty, next_obj = 0,
      gWorld = World_default, gBackgroundColor = Color_default, gen_state = seed\<rparr>"

text \<open>
  What the SDL library answers during \<open>init\<close>: the return code of \<open>SDL_Init\<close> (0 on success)
  and the handles returned by \<open>SDL_CreateWindow\<close> and \<open>SDL_CreateRenderer\<close> (null on
  failure).
\<close>

record sdl_env =
  SDL_Init :: int
  SDL_CreateWindow :: "nat option"
  SDL_CreateRenderer :: "nat option"

definition init :: "sdl_env \<Rightarrow> globals \<Rightarrow> int \<times> globals" where
  "init env st =
     (if SDL_Init env \<noteq> 0 then (0, st)
      else (1, st\<lparr>gWindow := SDL_CreateWindow env, gRenderer := SDL_CreateRenderer env,
                    gWorld := World_default, gBackgroundColor := Color_default\<rparr>))"

text \<open>
  The square one turn of the loop of \<open>init_squares\<close> builds (lines 164 to 168): the
  velocity is drawn first, then the colour.
\<close>

definition make_square :: "rng \<Rightarrow> Square \<times> rng" where
  "make_square gen =
     (let (v, gen1) = get_random_velocity gen;
          square = new_Square \<lparr>vec_x = lit 100.0, vec_y = lit 100.0\<rparr>
                     \<lparr>vec_x = double_of_int (gScreenWidth div 2),
                      vec_y = double_of_int (gScreenHeight div 2)\<rparr> v;
          (c, gen2) = get_random_color gen1
      in (setColor c square, gen2))"

text \<open>One turn of that loop, with \<open>new\<close> and \<open>push_back\<close>, and the loop, counted down.\<close>

definition init_squares_step :: "globals \<Rightarrow> globals" where
  "init_squares_step st =
     (let (square, gen) = make_square (gen_state st);
          ptr = next_obj st
      in st\<lparr>heap := (heap st)(ptr \<mapsto> square), next_obj := Suc ptr,
             gSquares := gSquares st @ [ptr], gen_state := gen\<rparr>)"

fun init_squares_loop :: "nat \<Rightarrow> globals \<Rightarrow> globals" where
  "init_squares_loop 0 st = st"
| "init_squares_loop (Suc n) st = init_squares_loop n (init_squares_step st)"

definition init_squares :: "globals \<Rightarrow> globals" where
  "init_squares st = init_squares_loop gNumSquares st"

text \<open>
  \<open>update_squares\<close> walks the vector and updates every square in place. Reading through a
  pointer to a deleted object is undefined behaviour: the result \<open>None\<close>.
\<close>

fun update_squares_loop :: "nat list \<Rightarrow> globals \<Rightarrow> globals option" where
  "update_squares_loop [] st = Some st"
| "update_squares_loop (ptr # ptrs) st =
     (case heap st ptr of
        None \<Rightarrow> None
      | Some square \<Rightarrow>
          let (square', gen) = update_square (gWorld st) square (gen_state st)
          in update_squares_loop ptrs (st\<lparr>heap := (heap st)(ptr \<mapsto> square'), gen_state := gen\<rparr>))"

definition update_squares :: "globals \<Rightarrow> globals option" where
  "update_squares st = update_squares_loop (gSquares st) st"

text \<open>
  \<open>reinit_squares\<close>: delete every square of the vector (deleting an object twice is
  undefined), clear the vector, and build the squares anew.
\<close>

fun delete_all :: "nat list \<Rightarrow> globals \<Rightarrow> globals option" where
  "delete_all [] st = Some st"
| "delete_all (ptr # ptrs) st =
     (case heap st ptr of
        None \<Rightarrow> None
      | Some square \<Rightarrow> delete_all ptrs (st\<lparr>heap := (heap st)(ptr := None)\<rparr>))"

definition reinit_squares :: "globals \<Rightarrow> globals option" where
  "reinit_squares st =
     (case delete_all (gSquares st) st of
        None \<Rightarrow> None
      | Some st1 \<Rightarrow> Some (init_squares (st1\<lparr>gSquares := []\<rparr>)))"

section \<open>Drawing\<close>

text \<open>
  \<open>static_cast<int>\<close> of a \<open>double\<close> drops the fraction; it is undefined when the result
  does not fit a 32-bit \<open>int\<close>, and for infinities and not-a-number.
\<close>

fun int_of_double :: "double \<Rightarrow> int option" where
  "int_of_double (Fin a) =
     (let t = (if 0 \<le> a then \<lfloor>a\<rfloor> else \<lceil>a\<rceil>)
      in if - (2 ^ 31) \<le> t \<and> t < 2 ^ 31 then Some t else None)"
| "int_of_double _ = None"

text \<open>The calls \<open>draw_squares\<close> makes on the renderer, in order. It writes no global.\<close>

datatype draw_call =
  SetRenderDrawColor "8 word" "8 word" "8 word" "8 word"
  | RenderClear
  | RenderFillRect int int int int
  | RenderPresent

definition set_color :: "Color \<Rightarrow> draw_call" where
  "set_color c = SetRenderDrawColor (red c) (green c) (blue c) (alpha c)"

fun draw_rects :: "(nat \<rightharpoonup> Square) \<Rightarrow> nat list \<Rightarrow> draw_call list option" where
  "draw_rects h [] = Some []"
| "draw_rects h (ptr # ptrs) =
     (case h ptr of
        None \<Rightarrow> None
      | Some square \<Rightarrow>
          (case (int_of_double (vec_x (m_position square)),
                 int_of_double (vec_y (m_position square)),
                 int_of_double (vec_x (m_size square)),
                 int_of_double (vec_y (m_size square))) of
             (Some rx, Some ry, Some rw, Some rh) \<Rightarrow>
               (case draw_rects h ptrs of
                  None \<Rightarrow> None
                | Some calls \<Rightarrow>
                    Some (set_color (m_color square) # RenderFillRect rx ry rw rh # calls))
           | _ \<Rightarrow> None))"

definition draw_squares :: "globals \<Rightarrow> draw_call list option" where
  "draw_squares st =
     (case draw_rects (heap st) (gSquares st) of
        None \<Rightarrow> None
      | Some calls \<Rightarrow> Some (set_color (gBackgroundColor st) # RenderClear # calls @ [RenderPresent]))"

section \<open>The main loop\<close>

text \<open>
  An event as \<open>main\<close> looks at it: its type and, for a key press, the key. A frame is the
  list of the events pending when the frame starts; \<open>SDL_PollEvent\<close> hands them out one by
  one and then returns 0.
\<close>

datatype event = SDL_QUIT | SDL_KEYDOWN int | Other_event

definition SDLK_SPACE :: int where
  "SDLK_SPACE = 32"

fun poll_events :: "event list \<Rightarrow> bool \<times> globals \<Rightarrow> (bool \<times> globals) option" where
  "poll_events [] r = Some r"
| "poll_events (e # es) (quit, st) =
     (case e of
        SDL_QUIT \<Rightarrow> poll_events es (True, st)
      | SDL_KEYDOWN key \<Rightarrow>
          (if key = SDLK_SPACE then
             (case reinit_squares st of
                None \<Rightarrow> None
              | Some st' \<Rightarrow> poll_events es (quit, st'))
           else poll_events es (quit, st))
      | Other_event \<Rightarrow> poll_events es (quit, st))"

text \<open>One turn of the outer loop: events, drawing, update. The delay changes nothing.\<close>

definition frame :: "event list \<Rightarrow> globals \<Rightarrow> (bool \<times> globals) option" where
  "frame es st =
     (case poll_events es (False, st) of
        None \<Rightarrow> None
      | Some (quit, st1) \<Rightarrow>
          (case draw_squares st1 of
             None \<Rightarrow> None
           | Some calls \<Rightarrow>
               (case update_squares st1 of
                  None \<Rightarrow> None
                | Some st2 \<Rightarrow> Some (quit, st2))))"

text \<open>
  What a run of \<open>main\<close> comes to on a finite list of frames: the process has returned a
  status, or it is still in the loop with these globals when the list ends, or it has
  run into undefined behaviour. The frame that sees \<open>SDL_QUIT\<close> is still drawn and updated;
  then the loop ends, \<open>close\<close> releases the renderer and the window, and \<open>main\<close> returns 0.
\<close>

datatype outcome = Exit int | In_loop globals | Undefined

fun main_loop :: "event list list \<Rightarrow> globals \<Rightarrow> outcome" where
  "main_loop [] st = In_loop st"
| "main_loop (es # rest) st =
     (case frame es st of
        None \<Rightarrow> Undefined
      | Some (quit, st') \<Rightarrow> if quit then Exit 0 else main_loop rest st')"

definition main :: "sdl_env \<Rightarrow> rng \<Rightarrow> event list list \<Rightarrow> outcome" where
  "main env seed frames =
     (case init env (globals_start seed) of
        (ok, st) \<Rightarrow> if ok = 0 then Exit 1 else main_loop frames (init_squares st))"

section \<open>Values of the constants\<close>

lemma round64_0: "round64 0 = Fin 0"
  by (simp add: round64_def)

lemma double_of_int_0: "double_of_int 0 = Fin 0"
  by (simp add: double_of_int_def round64_def)

lemma double_of_int_640: "double_of_int 640 = Fin 640"
  by code_simp

lemma double_of_int_480: "double_of_int 480 = Fin 480"
  by code_simp

lemma lit_half: "lit (1 / 2) = Fin (1 / 2)"
  by code_simp

lemma lit_095: "lit (19 / 20) = Fin (4278419646001971 / 4503599627370496)"
  by code_simp

lemma World_default_val:
  "World_default = \<lparr>gravity = Fin (1 / 2), damping = Fin (8106479329266893 / 9007199254740992),
     air_resistance = Fin (8962163258467287 / 9007199254740992)\<rparr>"
  by code_simp

lemma round64_half: "round64 (1 / 2) = Fin (1 / 2)"
  by code_simp

lemma round64_270: "round64 270 = Fin 270"
  by code_simp

lemma round64_380: "round64 380 = Fin 380"
  by code_simp

lemma round64_540: "round64 540 = Fin 540"
  by code_simp

lemma round64_200_5: "round64 (401 / 2) = Fin (401 / 2)"
  by code_simp

lemmas screen_vals =
  gScreenWidth_def gScreenHeight_def double_of_int_0 double_of_int_640 double_of_int_480

lemmas flag_defs =
  is_on_right_wall_def is_on_left_wall_def is_on_wall_def is_on_floor_def is_on_ceiling_def

lemmas method_defs =
  applyGravity_def applyAirResistance_def updatePosition_def dampX_def dampY_def
  setPosX_def setPosY_def setVelocity_def setColor_def

section \<open>Rounding to binary64 is monotone\<close>

lemma two_powi_pos: "0 < (2::rat) powi k"
  by (simp add: zero_less_power_int)

lemma floor_log2_bounds:
  assumes "0 < a"
  shows "2 powi (floor_log2 a) \<le> a" and "a < 2 powi (floor_log2 a + 1)"
proof -
  have "2 powi (floor_log2 a) \<le> a \<and> a < 2 powi (floor_log2 a + 1)"
  proof (cases "1 \<le> a")
    case True
    define n where "n = \<lfloor>a\<rfloor>"
    have n1: "1 \<le> n" using True by (simp add: n_def le_floor_iff)
    then have n0: "0 < n" by simp
    define k where "k = nat (bitlen n - 1)"
    have bl: "bitlen n = int k + 1"
      using n0 bitlen_nonneg[of n] bitlen_eq_zero_iff[of n] by (simp add: k_def)
    have b: "2 ^ k \<le> n" "n < 2 ^ (k + 1)"
      using bitlen_bounds[OF n0] by (simp_all add: bl k_def[symmetric] nat_add_distrib)
    have fl: "floor_log2 a = int k" using True by (simp add: floor_log2_def n_def[symmetric] bl)
    have "(2::rat) ^ k \<le> of_int n" using b(1) by (metis of_int_le_iff of_int_numeral of_int_power)
    also have "\<dots> \<le> a" by (simp add: n_def)
    finally have lo: "(2::rat) ^ k \<le> a" .
    have "n + 1 \<le> 2 ^ (k + 1)" using b(2) by simp
    then have "(of_int (n + 1) :: rat) \<le> 2 ^ (k + 1)"
      by (metis of_int_le_iff of_int_numeral of_int_power)
    moreover have "a < of_int (n + 1)" unfolding n_def by linarith
    ultimately have hi: "a < 2 ^ (k + 1)" by linarith
    show ?thesis using lo hi by (simp add: fl power_int_add)
  next
    case False
    define y where "y = 1 / a"
    have y1: "1 < y" using False assms by (simp add: y_def)
    define c where "c = \<lceil>y\<rceil>"
    have c2: "2 \<le> c" using y1 unfolding c_def by (simp add: le_ceiling_iff) 
    then have n0: "0 < c - 1" by simp
    define j where "j = nat (bitlen (c - 1) - 1)"
    have bl: "bitlen (c - 1) = int j + 1"
      using n0 bitlen_nonneg[of "c - 1"] bitlen_eq_zero_iff[of "c - 1"] by (simp add: j_def)
    have b: "2 ^ j \<le> c - 1" "c - 1 < 2 ^ (j + 1)"
      using bitlen_bounds[OF n0] by (simp_all add: bl j_def[symmetric] nat_add_distrib)
    have fl: "floor_log2 a = - (int j + 1)"
      using False by (simp add: floor_log2_def y_def[symmetric] c_def[symmetric] bl)
    have "(2::rat) ^ j \<le> of_int (c - 1)" using b(1) by (metis of_int_le_iff of_int_numeral of_int_power)
    moreover have "of_int (c - 1) < y" unfolding c_def by linarith
    ultimately have ylo: "2 ^ j < y" by linarith
    have "c \<le> 2 ^ (j + 1)" using b(2) by simp
    then have "(of_int c :: rat) \<le> 2 ^ (j + 1)" by (metis of_int_le_iff of_int_numeral of_int_power)
    moreover have "y \<le> of_int c" unfolding c_def by linarith
    ultimately have yhi: "y \<le> 2 ^ (j + 1)" by linarith
    have a_eq: "a = 1 / y" using assms by (simp add: y_def)
    have ypos: "0 < y" using y1 by simp
    have lo: "1 / 2 ^ (j + 1) \<le> a"
      unfolding a_eq using yhi ypos by (simp add: frac_le)
    have hi: "a < 1 / 2 ^ j"
      unfolding a_eq using ylo ypos by (simp add: frac_less2)
    have e1: "- (int j + 1) = - int (j + 1)" and e2: "- (int j + 1) + 1 = - int j"
      by simp_all
    have p1: "(2::rat) powi (- (int j + 1)) = 1 / 2 ^ (j + 1)"
      unfolding e1 power_int_minus_divide power_int_of_nat ..
    have p2: "(2::rat) powi (- (int j + 1) + 1) = 1 / 2 ^ j"
      unfolding e2 power_int_minus_divide power_int_of_nat ..
    show ?thesis unfolding fl p1 p2 using lo hi by simp
  qed
  then show "2 powi (floor_log2 a) \<le> a" and "a < 2 powi (floor_log2 a + 1)" by simp_all
qed

lemma rne_of_int: "rne (of_int n) = n"
  by (simp add: rne_def)

lemma rne_bounds: "\<lfloor>q\<rfloor> \<le> rne q" "rne q \<le> \<lfloor>q\<rfloor> + 1"
  by (simp_all add: rne_def Let_def)

lemma rne_mono:
  assumes "q \<le> r"
  shows "rne q \<le> rne r"
proof (cases "\<lfloor>q\<rfloor> = \<lfloor>r\<rfloor>")
  case True
  have "q - of_int \<lfloor>r\<rfloor> \<le> r - of_int \<lfloor>r\<rfloor>" using assms by simp
  then show ?thesis unfolding rne_def Let_def True by auto
next
  case False
  have "\<lfloor>q\<rfloor> \<le> \<lfloor>r\<rfloor>" using assms by (rule floor_mono)
  with False have "\<lfloor>q\<rfloor> + 1 \<le> \<lfloor>r\<rfloor>" by simp
  with rne_bounds(2)[of q] rne_bounds(1)[of r] show ?thesis by linarith
qed

lemma rne_minus: "rne (- q) = - rne q"
proof (cases "q = of_int \<lfloor>q\<rfloor>")
  case True
  then obtain n where "q = of_int n" ..
  then have "- q = of_int (- n)" by simp
  then show ?thesis using \<open>q = of_int n\<close> rne_of_int by metis
next
  case False
  define f where "f = \<lfloor>q\<rfloor>"
  have lt: "of_int f < q" "q < of_int f + 1"
    using False unfolding f_def by (linarith, linarith)
  have fm: "\<lfloor>- q\<rfloor> = - f - 1"
    using lt by (intro floor_unique) simp_all
  have ev: "even (- f - 1) \<longleftrightarrow> odd f" by simp
  show ?thesis
    unfolding rne_def Let_def fm ev f_def[symmetric] using lt
    by (auto simp: field_simps)
qed

lemma rne_nonneg: "0 \<le> q \<Longrightarrow> 0 \<le> rne q"
  using rne_mono[of 0 q] rne_of_int[of 0] by simp

lemma floor_log2_mono:
  assumes "0 < a" "a \<le> b"
  shows "floor_log2 a \<le> floor_log2 b"
proof (rule ccontr)
  assume "\<not> floor_log2 a \<le> floor_log2 b"
  then have "floor_log2 b + 1 \<le> floor_log2 a" by simp
  then have "(2::rat) powi (floor_log2 b + 1) \<le> 2 powi floor_log2 a"
    by (intro power_int_increasing) simp_all
  moreover have "b < 2 powi (floor_log2 b + 1)" using assms by (intro floor_log2_bounds) simp
  moreover have "2 powi floor_log2 a \<le> a" using assms by (intro floor_log2_bounds)
  ultimately show False using assms by linarith
qed

lemma ulp_exp_minus: "ulp_exp (- a) = ulp_exp a"
  by (simp add: ulp_exp_def)

lemma ulp_exp_mono: "a \<noteq> 0 \<Longrightarrow> \<bar>a\<bar> \<le> \<bar>b\<bar> \<Longrightarrow> ulp_exp a \<le> ulp_exp b"
  unfolding ulp_exp_def using floor_log2_mono[of "\<bar>a\<bar>" "\<bar>b\<bar>"] by simp

lemma ulp_exp_upper:
  assumes "a \<noteq> 0"
  shows "\<bar>a\<bar> < 2 powi (ulp_exp a + 53)"
proof -
  have "\<bar>a\<bar> < 2 powi (floor_log2 \<bar>a\<bar> + 1)" using assms by (intro floor_log2_bounds) simp
  also have "\<dots> \<le> 2 powi (ulp_exp a + 53)"
    by (intro power_int_increasing) (simp_all add: ulp_exp_def)
  finally show ?thesis .
qed

lemma ulp_exp_lower:
  assumes "a \<noteq> 0" "- 1074 < ulp_exp a"
  shows "2 powi (ulp_exp a + 52) \<le> \<bar>a\<bar>"
proof -
  have "ulp_exp a = floor_log2 \<bar>a\<bar> - 52" using assms(2) unfolding ulp_exp_def by linarith
  then have "ulp_exp a + 52 = floor_log2 \<bar>a\<bar>" by simp
  then show ?thesis using floor_log2_bounds(1)[of "\<bar>a\<bar>"] assms(1) by simp
qed

text \<open>The scaled significand of a positive number and its rounding.\<close>

lemma scaled_upper:
  assumes "0 < a"
  shows "a / 2 powi ulp_exp a < 2 ^ 53"
proof -
  have "a < 2 powi (ulp_exp a + 53)" using ulp_exp_upper[of a] assms by simp
  also have "\<dots> = 2 powi ulp_exp a * 2 ^ 53" by (simp add: power_int_add)
  finally show ?thesis using two_powi_pos[of "ulp_exp a"] by (simp add: field_simps)
qed

lemma scaled_lower:
  assumes "0 < a" "- 1074 < ulp_exp a"
  shows "2 ^ 52 \<le> a / 2 powi ulp_exp a"
proof -
  have "2 powi (ulp_exp a + 52) \<le> a" using ulp_exp_lower[of a] assms by simp
  moreover have "(2::rat) powi (ulp_exp a + 52) = 2 powi ulp_exp a * 2 ^ 52"
    by (simp add: power_int_add)
  ultimately show ?thesis using two_powi_pos[of "ulp_exp a"] by (simp add: field_simps)
qed

lemma rne_scaled_upper:
  assumes "0 < a"
  shows "rne (a / 2 powi ulp_exp a) \<le> 2 ^ 53"
proof -
  have "rne (a / 2 powi ulp_exp a) \<le> rne (of_int (2 ^ 53))"
    using scaled_upper[OF assms] by (intro rne_mono) simp
  then show ?thesis unfolding rne_of_int .
qed

lemma rne_scaled_lower:
  assumes "0 < a" "- 1074 < ulp_exp a"
  shows "2 ^ 52 \<le> rne (a / 2 powi ulp_exp a)"
proof -
  have "rne (of_int (2 ^ 52)) \<le> rne (a / 2 powi ulp_exp a)"
    using scaled_lower[OF assms] by (intro rne_mono) simp
  then show ?thesis unfolding rne_of_int .
qed

lemma rne_scaled_nonneg:
  assumes "0 < a"
  shows "0 \<le> rne (a / 2 powi ulp_exp a)"
  using assms two_powi_pos[of "ulp_exp a"] by (intro rne_nonneg) simp

lemma fle_PInf: "x \<noteq> NaN \<Longrightarrow> fle x PInf"
  by (cases x) simp_all

lemma fle_fneg: "fle x y \<Longrightarrow> fle (fneg y) (fneg x)"
  by (cases x; cases y) simp_all

lemma fle_trans: "fle x y \<Longrightarrow> fle y z \<Longrightarrow> fle x z"
  by (cases x; cases y; cases z) simp_all

lemma fneg_fneg: "fneg (fneg x) = x"
  by (cases x) simp_all

lemma round64_unfold:
  assumes "a \<noteq> 0"
  shows "round64 a =
    (if 971 < ulp_exp a \<or> (ulp_exp a = 971 \<and> 2 ^ 53 \<le> \<bar>rne (a / 2 powi ulp_exp a)\<bar>)
     then (if 0 < a then PInf else NInf)
     else Fin (of_int (rne (a / 2 powi ulp_exp a)) * 2 powi ulp_exp a))"
  unfolding round64_def Let_def by (simp only: assms if_False)

lemma round64_pos:
  assumes "0 < a"
  shows "round64 a =
    (if 971 < ulp_exp a \<or> (ulp_exp a = 971 \<and> 2 ^ 53 \<le> rne (a / 2 powi ulp_exp a)) then PInf
     else Fin (of_int (rne (a / 2 powi ulp_exp a)) * 2 powi ulp_exp a))"
proof -
  have ne: "a \<noteq> 0" using assms by simp
  have abs_m: "\<bar>rne (a / 2 powi ulp_exp a)\<bar> = rne (a / 2 powi ulp_exp a)"
    using rne_scaled_nonneg[OF assms] by simp
  show ?thesis unfolding round64_unfold[OF ne] abs_m by (simp only: assms if_True)
qed

lemma round64_not_NaN: "round64 a \<noteq> NaN"
  by (simp add: round64_def Let_def)

lemma round64_minus: "round64 (- a) = fneg (round64 a)"
proof (cases "a = 0")
  case True
  then show ?thesis by (simp add: round64_0)
next
  case False
  then have ne: "- a \<noteq> 0" by simp
  define e where "e = ulp_exp a"
  define m where "m = rne (a / 2 powi e)"
  define ovf where "ovf \<longleftrightarrow> 971 < e \<or> (e = 971 \<and> 2 ^ 53 \<le> \<bar>m\<bar>)"
  have m': "rne (- a / 2 powi e) = - m" by (simp add: m_def rne_minus)
  have R: "round64 a = (if ovf then (if 0 < a then PInf else NInf) else Fin (of_int m * 2 powi e))"
    unfolding round64_unfold[OF False] ovf_def m_def e_def ..
  have L: "round64 (- a) =
      (if ovf then (if 0 < - a then PInf else NInf) else Fin (of_int (- m) * 2 powi e))"
    unfolding round64_unfold[OF ne] ulp_exp_minus e_def[symmetric] m' ovf_def by simp
  show ?thesis unfolding L R using False by (cases ovf; cases "0 < a") simp_all
qed

lemma round64_nonneg:
  assumes "0 \<le> a"
  shows "fle (Fin 0) (round64 a)"
proof (cases "a = 0")
  case True
  then show ?thesis by (simp add: round64_0)
next
  case False
  then have pos: "0 < a" using assms by simp
  have "0 \<le> rat_of_int (rne (a / 2 powi ulp_exp a)) * 2 powi ulp_exp a"
    using rne_scaled_nonneg[OF pos] two_powi_pos[of "ulp_exp a"] by simp
  then show ?thesis unfolding round64_pos[OF pos] by simp
qed

lemma round64_mono_pos:
  assumes "0 < a" "a \<le> b"
  shows "fle (round64 a) (round64 b)"
proof -
  have bpos: "0 < b" using assms by simp
  define ea where "ea = ulp_exp a"
  define eb where "eb = ulp_exp b"
  define ma where "ma = rne (a / 2 powi ea)"
  define mb where "mb = rne (b / 2 powi eb)"
  have e_le: "ea \<le> eb" unfolding ea_def eb_def using assms by (intro ulp_exp_mono) simp_all
  have ea_min: "- 1074 \<le> ea" by (simp add: ea_def ulp_exp_def)
  have ma_hi: "ma \<le> 2 ^ 53" unfolding ma_def ea_def by (rule rne_scaled_upper[OF assms(1)])
  have ma_lo: "0 \<le> ma" unfolding ma_def ea_def by (rule rne_scaled_nonneg[OF assms(1)])
  have same: "ma \<le> mb" if "ea = eb"
    unfolding ma_def mb_def that using assms two_powi_pos[of eb]
    by (intro rne_mono) (simp add: divide_right_mono)
  have ra: "round64 a =
    (if 971 < ea \<or> (ea = 971 \<and> 2 ^ 53 \<le> ma) then PInf else Fin (of_int ma * 2 powi ea))"
    unfolding ma_def ea_def by (rule round64_pos[OF assms(1)])
  have rb: "round64 b =
    (if 971 < eb \<or> (eb = 971 \<and> 2 ^ 53 \<le> mb) then PInf else Fin (of_int mb * 2 powi eb))"
    unfolding mb_def eb_def by (rule round64_pos[OF bpos])
  show ?thesis
  proof (cases "971 < eb \<or> (eb = 971 \<and> 2 ^ 53 \<le> mb)")
    case True
    then have "round64 b = PInf" using rb by simp
    then show ?thesis using round64_not_NaN[of a] by (simp add: fle_PInf)
  next
    case False
    then have fb: "round64 b = Fin (of_int mb * 2 powi eb)" using rb by simp
    have na: "\<not> (971 < ea \<or> (ea = 971 \<and> 2 ^ 53 \<le> ma))"
      using False e_le same by force
    then have fa: "round64 a = Fin (of_int ma * 2 powi ea)" using ra by simp
    have "rat_of_int ma * 2 powi ea \<le> of_int mb * 2 powi eb"
    proof (cases "ea = eb")
      case True
      then show ?thesis using same[OF True] two_powi_pos[of eb] by (simp add: mult_right_mono)
    next
      case False
      then have lt: "ea < eb" using e_le by simp
      then have "- 1074 < ulp_exp b" using ea_min by (simp add: eb_def)
      then have mb_lo: "2 ^ 52 \<le> mb" unfolding mb_def eb_def by (rule rne_scaled_lower[OF bpos])
      have "rat_of_int ma * 2 powi ea \<le> 2 ^ 53 * 2 powi ea"
      proof -
        have "rat_of_int ma \<le> rat_of_int (2 ^ 53)" using ma_hi by (simp only: of_int_le_iff)
        then show ?thesis using two_powi_pos[of ea] by (intro mult_right_mono) simp_all
      qed
      also have "\<dots> = 2 powi (ea + 53)" by (simp add: power_int_add)
      also have "\<dots> \<le> 2 powi (eb + 52)" using lt by (intro power_int_increasing) simp_all
      also have "\<dots> = 2 ^ 52 * 2 powi eb" by (simp add: power_int_add)
      also have "\<dots> \<le> of_int mb * 2 powi eb"
      proof -
        have "rat_of_int (2 ^ 52) \<le> rat_of_int mb" using mb_lo by (simp only: of_int_le_iff)
        then show ?thesis using two_powi_pos[of eb] by (intro mult_right_mono) simp_all
      qed
      finally show ?thesis .
    qed
    then show ?thesis unfolding fa fb by simp
  qed
qed

lemma round64_nonpos:
  assumes "a \<le> 0"
  shows "fle (round64 a) (Fin 0)"
proof -
  have "fle (Fin 0) (round64 (- a))" using assms by (intro round64_nonneg) simp
  then have "fle (fneg (round64 (- a))) (fneg (Fin 0))" by (rule fle_fneg)
  then show ?thesis by (simp add: round64_minus fneg_fneg)
qed

lemma round64_mono:
  assumes "a \<le> b"
  shows "fle (round64 a) (round64 b)"
proof -
  consider "0 < a" | "a \<le> 0" "0 \<le> b" | "b < 0" using assms by linarith
  then show ?thesis
  proof cases
    case 1
    then show ?thesis using assms by (rule round64_mono_pos)
  next
    case 2
    then show ?thesis using round64_nonpos round64_nonneg fle_trans by blast
  next
    case 3
    then have "fle (round64 (- b)) (round64 (- a))"
      using assms by (intro round64_mono_pos) simp_all
    then have "fle (fneg (round64 (- a))) (fneg (round64 (- b)))" by (rule fle_fneg)
    then show ?thesis by (simp add: round64_minus fneg_fneg)
  qed
qed

section \<open>Rounding gives values of the type\<close>

lemma floor_log2_unique:
  assumes "0 < a" "2 powi k \<le> a" "a < 2 powi (k + 1)"
  shows "floor_log2 a = k"
proof (rule antisym)
  show "floor_log2 a \<le> k"
  proof (rule ccontr)
    assume "\<not> floor_log2 a \<le> k"
    then have "k + 1 \<le> floor_log2 a" by simp
    then have "(2::rat) powi (k + 1) \<le> 2 powi floor_log2 a"
      by (intro power_int_increasing) simp_all
    with floor_log2_bounds(1)[OF assms(1)] assms(3) show False by linarith
  qed
  show "k \<le> floor_log2 a"
  proof (rule ccontr)
    assume "\<not> k \<le> floor_log2 a"
    then have "floor_log2 a + 1 \<le> k" by simp
    then have "(2::rat) powi (floor_log2 a + 1) \<le> 2 powi k"
      by (intro power_int_increasing) simp_all
    with floor_log2_bounds(2)[OF assms(1)] assms(2) show False by linarith
  qed
qed

lemma round64_fixed:
  assumes m: "0 < m" "m < 2 ^ 53" and e: "- 1074 \<le> e" "e \<le> 971"
    and norm: "- 1074 < e \<Longrightarrow> 2 ^ 52 \<le> m"
  shows "round64 (of_int m * 2 powi e) = Fin (of_int m * 2 powi e)"
proof -
  define v :: rat where "v = of_int m * 2 powi e"
  have vpos: "0 < v" unfolding v_def using m(1) two_powi_pos[of e] by simp
  have "rat_of_int m < rat_of_int (2 ^ 53)" using m(2) by (simp only: of_int_less_iff)
  then have "v < 2 ^ 53 * 2 powi e"
    unfolding v_def using two_powi_pos[of e] by (intro mult_strict_right_mono) simp_all
  also have "\<dots> = 2 powi (e + 52 + 1)" by (simp add: power_int_add)
  finally have hi: "v < 2 powi (e + 52 + 1)" .
  have ue: "ulp_exp v = e"
  proof (cases "- 1074 < e")
    case True
    have "rat_of_int (2 ^ 52) \<le> rat_of_int m" using norm[OF True] by (simp only: of_int_le_iff)
    then have "2 ^ 52 * 2 powi e \<le> v"
      unfolding v_def using two_powi_pos[of e] by (intro mult_right_mono) simp_all
    moreover have "(2::rat) ^ 52 * 2 powi e = 2 powi (e + 52)" by (simp add: power_int_add)
    ultimately have "2 powi (e + 52) \<le> v" by simp
    then have "floor_log2 v = e + 52" using vpos hi by (intro floor_log2_unique)
    then show ?thesis using True vpos by (simp add: ulp_exp_def)
  next
    case False
    then have e_eq: "e = - 1074" using e(1) by simp
    have "floor_log2 v < e + 52 + 1"
    proof (rule ccontr)
      assume "\<not> floor_log2 v < e + 52 + 1"
      then have "(2::rat) powi (e + 52 + 1) \<le> 2 powi floor_log2 v"
        by (intro power_int_increasing) simp_all
      with floor_log2_bounds(1)[OF vpos] hi show False by linarith
    qed
    then show ?thesis using vpos unfolding ulp_exp_def e_eq by simp
  qed
  have sc: "v / 2 powi e = of_int m" unfolding v_def using two_powi_pos[of e] by simp
  have ne: "v \<noteq> 0" using vpos by simp
  have novf: "\<not> (971 < e \<or> (e = 971 \<and> 2 ^ 53 \<le> \<bar>m\<bar>))" using e(2) m by simp
  have "round64 v = Fin (of_int m * 2 powi e)"
    unfolding round64_unfold[OF ne] ue sc rne_of_int using novf by (simp only: if_False)
  then show ?thesis unfolding v_def .
qed

lemma round64_idem_pos:
  assumes "0 < a" "round64 a = Fin v"
  shows "round64 v = Fin v"
proof -
  define e where "e = ulp_exp a"
  define m where "m = rne (a / 2 powi e)"
  have r: "round64 a = (if 971 < e \<or> (e = 971 \<and> 2 ^ 53 \<le> m) then PInf
     else Fin (of_int m * 2 powi e))"
    unfolding m_def e_def by (rule round64_pos[OF assms(1)])
  have novf: "\<not> (971 < e \<or> (e = 971 \<and> 2 ^ 53 \<le> m))"
    using r assms(2) by (auto split: if_splits)
  then have "round64 a = Fin (of_int m * 2 powi e)" unfolding r by (simp only: if_False)
  then have v: "v = of_int m * 2 powi e" using assms(2) by simp
  have e_min: "- 1074 \<le> e" by (simp add: e_def ulp_exp_def)
  have m_lo: "0 \<le> m" unfolding m_def e_def by (rule rne_scaled_nonneg[OF assms(1)])
  have m_hi: "m \<le> 2 ^ 53" unfolding m_def e_def by (rule rne_scaled_upper[OF assms(1)])
  have m_norm: "2 ^ 52 \<le> m" if "- 1074 < e"
    unfolding m_def e_def using assms(1) that[unfolded e_def] by (rule rne_scaled_lower)
  consider "m = 0" | "0 < m" "m < 2 ^ 53" | "m = 2 ^ 53" using m_lo m_hi by linarith
  then show ?thesis
  proof cases
    case 1
    then show ?thesis by (simp add: v round64_0)
  next
    case 2
    have "e \<le> 971" using novf by simp
    then show ?thesis unfolding v using 2 e_min m_norm by (intro round64_fixed)
  next
    case 3
    have e_lt: "e < 971" using novf 3 by simp
    have "rat_of_int m = 2 ^ 53" unfolding 3 by simp
    then have "v = of_int (2 ^ 52) * 2 powi (e + 1)" unfolding v by (simp add: power_int_add)
    moreover have "round64 (of_int (2 ^ 52) * 2 powi (e + 1)) = Fin (of_int (2 ^ 52) * 2 powi (e + 1))"
      using e_lt e_min by (intro round64_fixed) simp_all
    ultimately show ?thesis by simp
  qed
qed

lemma round64_idem:
  assumes "round64 a = Fin v"
  shows "round64 v = Fin v"
proof -
  consider "0 < a" | "a = 0" | "a < 0" by linarith
  then show ?thesis
  proof cases
    case 1
    then show ?thesis using assms by (rule round64_idem_pos)
  next
    case 2
    then show ?thesis using assms by (simp add: round64_0)
  next
    case 3
    have "round64 (- a) = Fin (- v)" using assms by (simp add: round64_minus)
    then have "round64 (- v) = Fin (- v)" using 3 by (intro round64_idem_pos[of "- a"]) simp_all
    then have "fneg (round64 v) = Fin (- v)" by (simp add: round64_minus)
    then show ?thesis by (cases "round64 v") simp_all
  qed
qed

lemma is_double_round64: "is_double (round64 a)"
  by (cases "round64 a") (simp_all add: round64_idem)

lemma is_double_fneg: "is_double x \<Longrightarrow> is_double (fneg x)"
  by (cases x) (simp_all add: round64_minus)

lemma is_double_fadd: "is_double (fadd x y)"
  by (cases x; cases y) (simp_all add: is_double_round64)

lemma is_double_fmul: "is_double x \<Longrightarrow> is_double y \<Longrightarrow> is_double (fmul x y)"
  by (cases x; cases y) (simp_all add: is_double_round64 round64_minus)

section \<open>The order on the values\<close>

lemma fle_not_flt: "fle a b \<Longrightarrow> \<not> flt b a"
  by (cases a; cases b) simp_all

lemma flt_not_fle: "flt a b \<Longrightarrow> \<not> fle b a"
  by (cases a; cases b) simp_all

lemma flt_PInf_left: "flt PInf x = False"
  by (cases x) simp_all

lemma fle_fadd_half:
  assumes "is_double x" "x \<noteq> NaN"
  shows "fle x (fadd x (Fin (1 / 2)))"
proof (cases x)
  case (Fin b)
  then have "round64 b = Fin b" using assms(1) by simp
  moreover have "fle (round64 b) (round64 (b + 1 / 2))" by (intro round64_mono) simp
  ultimately show ?thesis using Fin by simp
qed (use assms in simp_all)

lemma is_double_fsub: "is_double (fsub x y)"
  by (simp add: fsub_def is_double_fadd)

section \<open>The move keeps size and colour\<close>

lemma integrate_size: "m_size (integrate w s) = m_size s"
  by (simp add: integrate_def method_defs)

lemma integrate_color: "m_color (integrate w s) = m_color s"
  by (simp add: integrate_def method_defs)

section \<open>One frame in mid-air\<close>

lemma mid_air_flags:
  "\<not> is_on_wall (integrate World_default
         \<lparr>m_size = \<lparr>vec_x = Fin 100, vec_y = Fin 100\<rparr>,
          m_position = \<lparr>vec_x = Fin 270, vec_y = Fin 200\<rparr>,
          m_velocity = \<lparr>vec_x = Fin 0, vec_y = Fin 0\<rparr>, m_color = c\<rparr>)"
  "\<not> is_on_floor (integrate World_default
         \<lparr>m_size = \<lparr>vec_x = Fin 100, vec_y = Fin 100\<rparr>,
          m_position = \<lparr>vec_x = Fin 270, vec_y = Fin 200\<rparr>,
          m_velocity = \<lparr>vec_x = Fin 0, vec_y = Fin 0\<rparr>, m_color = c\<rparr>)"
  "\<not> is_on_ceiling (integrate World_default
         \<lparr>m_size = \<lparr>vec_x = Fin 100, vec_y = Fin 100\<rparr>,
          m_position = \<lparr>vec_x = Fin 270, vec_y = Fin 200\<rparr>,
          m_velocity = \<lparr>vec_x = Fin 0, vec_y = Fin 0\<rparr>, m_color = c\<rparr>)"
  by (simp_all add: integrate_def flag_defs World_default_val screen_vals
      method_defs fge_def fsub_def Let_def round64_0 round64_half round64_270 round64_380
      round64_540 round64_200_5)

text \<open>
  C1. One per-frame update of a square of the size the program builds (100 by 100), at
  position (270, 200) with velocity (0, 0), under the default world and on the 640 by 480
  screen: the velocity becomes (0, 0.5) and the position (270, 200.5); after the move the
  square is on no wall, not on the floor and not on the ceiling, so none of the three
  branches runs, and neither the colour nor the generator changes.
\<close>

theorem update_square_mid_air:
  "(let s = \<lparr>m_size = \<lparr>vec_x = Fin 100, vec_y = Fin 100\<rparr>,
             m_position = \<lparr>vec_x = Fin 270, vec_y = Fin 200\<rparr>,
             m_velocity = \<lparr>vec_x = Fin 0, vec_y = Fin 0\<rparr>, m_color = c\<rparr>
    in update_square World_default s gen =
         (\<lparr>m_size = \<lparr>vec_x = Fin 100, vec_y = Fin 100\<rparr>,
           m_position = \<lparr>vec_x = Fin 270, vec_y = Fin (401 / 2)\<rparr>,
           m_velocity = \<lparr>vec_x = Fin 0, vec_y = Fin (1 / 2)\<rparr>, m_color = c\<rparr>, gen)
       \<and> \<not> is_on_wall (integrate World_default s)
       \<and> \<not> is_on_floor (integrate World_default s)
       \<and> \<not> is_on_ceiling (integrate World_default s))"
  unfolding Let_def
  by (intro conjI mid_air_flags)
     (simp add: update_square_def integrate_def flag_defs World_default_val screen_vals
      method_defs fge_def fsub_def Let_def round64_0 round64_half round64_270 round64_380
      round64_540 round64_200_5)

section \<open>A frame without contact\<close>

text \<open>
  C10. If, after the move, the square is on no wall, not on the floor and not on the
  ceiling, the update is the move alone: the result is the old square with a new position
  and a new velocity. Its colour and its size are the old ones, and no colour is drawn.
\<close>

theorem update_square_no_contact:
  assumes "\<not> is_on_wall (integrate w s)"
    and "\<not> is_on_floor (integrate w s)"
    and "\<not> is_on_ceiling (integrate w s)"
  shows "update_square w s gen =
           (s\<lparr>m_position := m_position (integrate w s),
              m_velocity := m_velocity (integrate w s)\<rparr>, gen)
         \<and> m_color (fst (update_square w s gen)) = m_color s
         \<and> m_size (fst (update_square w s gen)) = m_size s"
proof -
  have "update_square w s gen = (integrate w s, gen)"
    using assms by (simp add: update_square_def is_on_wall_def)
  moreover have "integrate w s = s\<lparr>m_position := m_position (integrate w s),
              m_velocity := m_velocity (integrate w s)\<rparr>"
    by (simp add: integrate_def method_defs)
  ultimately show ?thesis by (simp add: integrate_size integrate_color)
qed

theorem update_square_no_contact_witness:
  "(let s = \<lparr>m_size = \<lparr>vec_x = Fin 100, vec_y = Fin 100\<rparr>,
             m_position = \<lparr>vec_x = Fin 270, vec_y = Fin 200\<rparr>,
             m_velocity = \<lparr>vec_x = Fin 0, vec_y = Fin 0\<rparr>, m_color = Color_default\<rparr>
    in \<not> is_on_wall (integrate World_default s)
       \<and> \<not> is_on_floor (integrate World_default s)
       \<and> \<not> is_on_ceiling (integrate World_default s)
       \<and> update_square World_default s (\<lambda>n. 0) =
           (s\<lparr>m_position := m_position (integrate World_default s),
              m_velocity := m_velocity (integrate World_default s)\<rparr>, \<lambda>n. 0)
       \<and> m_color (fst (update_square World_default s (\<lambda>n. 0))) = m_color s
       \<and> m_size (fst (update_square World_default s (\<lambda>n. 0))) = m_size s)"
  unfolding Let_def
  using update_square_no_contact[OF mid_air_flags, of Color_default "\<lambda>n. 0"]
    mid_air_flags[of Color_default]
  by blast

section \<open>The order of the three corrections\<close>

lemma all_three_flags:
  "is_on_wall (integrate World_default
       \<lparr>m_size = \<lparr>vec_x = Fin 100, vec_y = Fin 500\<rparr>,
        m_position = \<lparr>vec_x = Fin 600, vec_y = Fin (- 20)\<rparr>,
        m_velocity = \<lparr>vec_x = Fin 0, vec_y = Fin 0\<rparr>, m_color = Color_default\<rparr>)
   \<and> is_on_floor (integrate World_default
       \<lparr>m_size = \<lparr>vec_x = Fin 100, vec_y = Fin 500\<rparr>,
        m_position = \<lparr>vec_x = Fin 600, vec_y = Fin (- 20)\<rparr>,
        m_velocity = \<lparr>vec_x = Fin 0, vec_y = Fin 0\<rparr>, m_color = Color_default\<rparr>)
   \<and> is_on_ceiling (integrate World_default
       \<lparr>m_size = \<lparr>vec_x = Fin 100, vec_y = Fin 500\<rparr>,
        m_position = \<lparr>vec_x = Fin 600, vec_y = Fin (- 20)\<rparr>,
        m_velocity = \<lparr>vec_x = Fin 0, vec_y = Fin 0\<rparr>, m_color = Color_default\<rparr>)"
  by code_simp

text \<open>
  C5. The update of the source is the update as the specification words it: the wall, the
  floor and the ceiling condition are each read once, from the square as the move left it
  and before any clamp; each correction runs exactly when its condition held there; and
  the corrections run in the order wall, floor, ceiling. Several conditions can hold in
  one frame: there is a square for which all three hold.
\<close>

theorem update_square_as_specified:
  "update_square w s gen = update_square_spec w s gen
   \<and> (\<exists>s'. is_on_wall (integrate World_default s') \<and> is_on_floor (integrate World_default s')
           \<and> is_on_ceiling (integrate World_default s'))"
proof
  show "update_square w s gen = update_square_spec w s gen"
    by (simp add: update_square_def update_square_spec_def wall_correction_def
      floor_correction_def ceiling_correction_def is_on_wall_def Let_def split: prod.splits)
  show "\<exists>s'. is_on_wall (integrate World_default s') \<and> is_on_floor (integrate World_default s')
           \<and> is_on_ceiling (integrate World_default s')"
    using all_three_flags by blast
qed

text \<open>
  That the conditions are read before the clamps shows on a square as tall as the screen,
  at y = 5: after the move it is on the floor and not on the ceiling; the floor branch
  clamps it to y = 0, where the ceiling condition holds, and still the ceiling branch does
  not run: the colour is the old one.
\<close>

lemma flags_read_before_clamp:
  "(let s = \<lparr>m_size = \<lparr>vec_x = Fin 100, vec_y = Fin 480\<rparr>,
             m_position = \<lparr>vec_x = Fin 270, vec_y = Fin 5\<rparr>,
             m_velocity = \<lparr>vec_x = Fin 0, vec_y = Fin 0\<rparr>, m_color = Color_default\<rparr>;
        r = update_square World_default s (\<lambda>n. 0)
    in is_on_floor (integrate World_default s)
       \<and> \<not> is_on_ceiling (integrate World_default s)
       \<and> vec_y (m_position (fst r)) = Fin 0
       \<and> is_on_ceiling (fst r)
       \<and> m_color (fst r) = Color_default)"
  by code_simp

section \<open>Friction on the floor\<close>

lemma floor_example_flags:
  "is_on_floor (integrate World_default
       \<lparr>m_size = \<lparr>vec_x = Fin 100, vec_y = Fin 100\<rparr>,
        m_position = \<lparr>vec_x = Fin 270, vec_y = Fin 380\<rparr>,
        m_velocity = \<lparr>vec_x = Fin 1, vec_y = Fin 0\<rparr>, m_color = Color_default\<rparr>)"
  "fle (vec_y (m_velocity (integrate World_default
       \<lparr>m_size = \<lparr>vec_x = Fin 100, vec_y = Fin 100\<rparr>,
        m_position = \<lparr>vec_x = Fin 270, vec_y = Fin 380\<rparr>,
        m_velocity = \<lparr>vec_x = Fin 1, vec_y = Fin 0\<rparr>, m_color = Color_default\<rparr>))) (lit 0.5)"
  by code_simp+

text \<open>
  C3, as amended. Let the square be on the floor after the move, with a vertical velocity
  of at most 0.5 there. Then the update ends with the vertical velocity 0, and with the
  horizontal velocity 0.95 times the horizontal velocity as it is when the floor branch
  starts: the velocity after the air resistance of this frame and, if the wall branch ran
  in this frame, after its damping by \<open>-damping\<close>.
\<close>

theorem floor_friction:
  assumes "is_on_floor (integrate World_default s)"
    and "fle (vec_y (m_velocity (integrate World_default s))) (lit 0.5)"
  shows "vec_y (m_velocity (fst (update_square World_default s gen))) = Fin 0
       \<and> vec_x (m_velocity (fst (update_square World_default s gen))) =
           fmul (if is_on_wall (integrate World_default s)
                 then fmul (vec_x (m_velocity (integrate World_default s)))
                        (fneg (damping World_default))
                 else vec_x (m_velocity (integrate World_default s))) (lit 0.95)"
proof -
  have ng: "\<not> fgt (vec_y (m_velocity (integrate World_default s))) (lit (1 / 2))"
    using assms(2) by (simp add: fgt_def fle_not_flt)
  show ?thesis
    using assms(1) ng
    by (simp add: update_square_def is_on_wall_def Let_def method_defs double_of_int_0
        World_default_val round64_0 split: prod.splits)
qed

theorem floor_friction_witness:
  "(let s = \<lparr>m_size = \<lparr>vec_x = Fin 100, vec_y = Fin 100\<rparr>,
             m_position = \<lparr>vec_x = Fin 270, vec_y = Fin 380\<rparr>,
             m_velocity = \<lparr>vec_x = Fin 1, vec_y = Fin 0\<rparr>, m_color = Color_default\<rparr>
    in is_on_floor (integrate World_default s)
       \<and> fle (vec_y (m_velocity (integrate World_default s))) (lit 0.5)
       \<and> vec_y (m_velocity (fst (update_square World_default s (\<lambda>n. 0)))) = Fin 0
       \<and> vec_x (m_velocity (fst (update_square World_default s (\<lambda>n. 0)))) =
           fmul (if is_on_wall (integrate World_default s)
                 then fmul (vec_x (m_velocity (integrate World_default s)))
                        (fneg (damping World_default))
                 else vec_x (m_velocity (integrate World_default s))) (lit 0.95))"
  unfolding Let_def
  using floor_friction[OF floor_example_flags, of "\<lambda>n. 0"] floor_example_flags
  by blast

text \<open>
  The claim as first stated takes the horizontal velocity from before the update. It fails
  for the square lying on the floor at (270, 380) with velocity (1, 0): the air resistance
  of the frame comes first, and the update ends with the horizontal velocity
  0.95 * (1 * 0.995), which is not 0.95 * 1.
\<close>

theorem floor_friction_counterexample:
  "(let s = \<lparr>m_size = \<lparr>vec_x = Fin 100, vec_y = Fin 100\<rparr>,
             m_position = \<lparr>vec_x = Fin 270, vec_y = Fin 380\<rparr>,
             m_velocity = \<lparr>vec_x = Fin 1, vec_y = Fin 0\<rparr>, m_color = Color_default\<rparr>
    in \<not> (is_on_floor (integrate World_default s)
           \<and> fle (vec_y (m_velocity (integrate World_default s))) (lit 0.5)
         \<longrightarrow> feq (vec_y (m_velocity (fst (update_square World_default s (\<lambda>n. 0))))) (Fin 0)
           \<and> feq (vec_x (m_velocity (fst (update_square World_default s (\<lambda>n. 0)))))
               (fmul (lit 0.95) (vec_x (m_velocity s)))))"
  by code_simp

section \<open>A bounce off the right wall\<close>

lemma fmul_5_air: "fmul (Fin 5) (Fin (8962163258467287 / 9007199254740992)) =
    Fin (2800676018271027 / 562949953421312)"
  by code_simp

lemma fadd_560: "fadd (Fin 560) (Fin (2800676018271027 / 562949953421312)) =
    Fin (4969572655221965 / 8796093022208)"
  by code_simp

lemma fsub_640_100: "fsub (Fin 640) (Fin 100) = Fin 540"
  by code_simp

lemma lit_09: "lit (9 / 10) = Fin (8106479329266893 / 9007199254740992)"
  by code_simp

text \<open>
  C2, as amended. On the screen of width 640, take a square of width 100 at x = 560 with
  the horizontal velocity 5, and let the floor branch not end in friction in this frame
  (after the move the square is off the floor, or its vertical velocity exceeds 0.5).
  Then the square is on the right wall after the move, the update ends with x = 540, hence
  x \<open>\<le>\<close> 540, and with the horizontal velocity \<open>-0.9\<close> times the horizontal velocity the
  square had just before the wall damping, which is its velocity after the move.
\<close>

theorem wall_bounce_right:
  assumes "vec_x (m_size s) = Fin 100"
    and "vec_x (m_position s) = Fin 560"
    and "vec_x (m_velocity s) = Fin 5"
    and "\<not> is_on_floor (integrate World_default s)
         \<or> fgt (vec_y (m_velocity (integrate World_default s))) (lit 0.5)"
  shows "is_on_right_wall (integrate World_default s)
       \<and> vec_x (m_position (fst (update_square World_default s gen))) = Fin 540
       \<and> fle (vec_x (m_position (fst (update_square World_default s gen)))) (Fin 540)
       \<and> vec_x (m_velocity (fst (update_square World_default s gen))) =
           fmul (vec_x (m_velocity (integrate World_default s))) (fneg (lit 0.9))"
proof -
  define p where "p = integrate World_default s"
  have sz: "vec_x (m_size p) = Fin 100" using assms(1) by (simp add: p_def integrate_size)
  have px: "vec_x (m_position p) = Fin (4969572655221965 / 8796093022208)"
    using assms(1-3) unfolding p_def
    by (simp add: integrate_def method_defs World_default_val fmul_5_air fadd_560
        del: fmul.simps fadd.simps)
  have right: "is_on_right_wall p"
    by (simp add: is_on_right_wall_def px sz screen_vals fsub_640_100 fge_def)
  have left: "\<not> is_on_left_wall p"
    by (simp add: is_on_left_wall_def px screen_vals)
  have fl: "\<not> is_on_floor p \<or> fgt (vec_y (m_velocity p)) (lit (1 / 2))"
    using assms(4) by (simp add: p_def)
  have "vec_x (m_position (fst (update_square World_default s gen))) = Fin 540
      \<and> vec_x (m_velocity (fst (update_square World_default s gen))) =
           fmul (vec_x (m_velocity p)) (fneg (lit (9 / 10)))"
    using right left fl sz unfolding update_square_def p_def[symmetric]
    by (auto simp: Let_def method_defs screen_vals fsub_640_100 World_default_val lit_09
        split: prod.splits simp del: fmul.simps fadd.simps)
  then show ?thesis using right by (simp add: p_def)
qed

theorem wall_bounce_right_witness:
  "(let s = \<lparr>m_size = \<lparr>vec_x = Fin 100, vec_y = Fin 100\<rparr>,
             m_position = \<lparr>vec_x = Fin 560, vec_y = Fin 200\<rparr>,
             m_velocity = \<lparr>vec_x = Fin 5, vec_y = Fin 0\<rparr>, m_color = Color_default\<rparr>
    in vec_x (m_size s) = Fin 100 \<and> vec_x (m_position s) = Fin 560
       \<and> vec_x (m_velocity s) = Fin 5
       \<and> (\<not> is_on_floor (integrate World_default s)
            \<or> fgt (vec_y (m_velocity (integrate World_default s))) (lit 0.5))
       \<and> is_on_right_wall (integrate World_default s)
       \<and> vec_x (m_position (fst (update_square World_default s (\<lambda>n. 0)))) = Fin 540
       \<and> fle (vec_x (m_position (fst (update_square World_default s (\<lambda>n. 0))))) (Fin 540)
       \<and> vec_x (m_velocity (fst (update_square World_default s (\<lambda>n. 0)))) =
           fmul (vec_x (m_velocity (integrate World_default s))) (fneg (lit 0.9)))"
proof -
  define s where "s = \<lparr>m_size = \<lparr>vec_x = Fin 100, vec_y = Fin 100\<rparr>,
             m_position = \<lparr>vec_x = Fin 560, vec_y = Fin 200\<rparr>,
             m_velocity = \<lparr>vec_x = Fin 5, vec_y = Fin 0\<rparr>, m_color = Color_default\<rparr>"
  have h: "vec_x (m_size s) = Fin 100" "vec_x (m_position s) = Fin 560"
    "vec_x (m_velocity s) = Fin 5"
    by (simp_all add: s_def)
  have "\<not> is_on_floor (integrate World_default s)" unfolding s_def by code_simp
  then have h4: "\<not> is_on_floor (integrate World_default s)
       \<or> fgt (vec_y (m_velocity (integrate World_default s))) (lit 0.5)" by simp
  show ?thesis
    using wall_bounce_right[OF h h4, of "\<lambda>n. 0"] h h4 unfolding s_def Let_def by blast
qed

text \<open>
  The claim as first stated says nothing of the floor. It fails in the corner: the square
  at (560, 380) with velocity (5, 0) hits the right wall and lies on the floor in the same
  frame, so the friction of the floor branch multiplies the damped horizontal velocity by
  0.95 once more.
\<close>

theorem wall_bounce_right_counterexample:
  "(let s = \<lparr>m_size = \<lparr>vec_x = Fin 100, vec_y = Fin 100\<rparr>,
             m_position = \<lparr>vec_x = Fin 560, vec_y = Fin 380\<rparr>,
             m_velocity = \<lparr>vec_x = Fin 5, vec_y = Fin 0\<rparr>, m_color = Color_default\<rparr>
    in \<not> (fle (vec_x (m_position (fst (update_square World_default s (\<lambda>n. 0))))) (Fin 540)
         \<and> feq (vec_x (m_velocity (fst (update_square World_default s (\<lambda>n. 0)))))
             (fmul (vec_x (m_velocity (integrate World_default s))) (fneg (lit 0.9)))))"
  by code_simp

section \<open>At rest on the floor\<close>

text \<open>
  C4, as amended. Take a square, its fields values of the type \<open>double\<close>, that lies on the
  floor, \<open>position.y == screenHeight - size.y\<close>, strictly between the left and the right
  wall, with velocity (0, 0), and that is not on the ceiling after the move (its height is
  below \<open>screenHeight + 0.5\<close>). The update leaves
  it as it is: same position, velocity (0, 0), same colour, no colour drawn. On the way,
  gravity makes the vertical velocity exactly 0.5, the square is on the floor after the
  move, and the strict test \<open>velocity.y > 0.5\<close> fails, so the friction branch runs and sets
  the vertical velocity to 0 again.
\<close>

theorem rest_on_floor:
  assumes "is_Square s"
    and "m_velocity s = \<lparr>vec_x = Fin 0, vec_y = Fin 0\<rparr>"
    and "feq (vec_y (m_position s)) (fsub (double_of_int gScreenHeight) (vec_y (m_size s)))"
    and "flt (double_of_int 0) (vec_x (m_position s))"
    and "flt (vec_x (m_position s)) (fsub (double_of_int gScreenWidth) (vec_x (m_size s)))"
    and "\<not> is_on_ceiling (integrate World_default s)"
  shows "update_square World_default s gen = (s, gen)
       \<and> vec_y (m_velocity (integrate World_default s)) = Fin (1 / 2)
       \<and> is_on_floor (integrate World_default s)
       \<and> \<not> fgt (vec_y (m_velocity (integrate World_default s))) (lit 0.5)"
proof -
  define p where "p = integrate World_default s"
  define F where "F = fsub (double_of_int gScreenHeight) (vec_y (m_size s))"
  have py: "vec_y (m_position s) = F" and F_num: "F \<noteq> NaN"
    using assms(3) by (auto simp: feq_def F_def)
  have F_dbl: "is_double F" unfolding F_def by (rule is_double_fsub)
  obtain a where px: "vec_x (m_position s) = Fin a"
    using assms(4,5) by (cases "vec_x (m_position s)") (simp_all add: double_of_int_0 flt_PInf_left)
  have "is_double (vec_x (m_position s))"
    using assms(1) by (simp add: is_Square_def is_Vec2_def)
  then have ra: "round64 a = Fin a" using px by simp
  have p_eq: "p = s\<lparr>m_position := \<lparr>vec_x = Fin a, vec_y = fadd F (Fin (1 / 2))\<rparr>,
                    m_velocity := \<lparr>vec_x = Fin 0, vec_y = Fin (1 / 2)\<rparr>\<rparr>"
    unfolding p_def
    by (simp add: integrate_def method_defs assms(2) World_default_val round64_0 round64_half
        px py ra)
  have right: "\<not> is_on_right_wall p"
    using flt_not_fle[OF assms(5)] by (simp add: is_on_right_wall_def p_eq fge_def px)
  have left: "\<not> is_on_left_wall p"
    using flt_not_fle[OF assms(4)] by (simp add: is_on_left_wall_def p_eq px)
  have floor: "is_on_floor p"
    using fle_fadd_half[OF F_dbl F_num] by (simp add: is_on_floor_def p_eq fge_def F_def)
  have ceil: "\<not> is_on_ceiling p" using assms(6) by (simp add: p_def)
  have ng: "\<not> fgt (vec_y (m_velocity p)) (lit (1 / 2))"
    by (simp add: p_eq lit_half fgt_def)
  have s_eq: "s\<lparr>m_position := \<lparr>vec_x = Fin a, vec_y = F\<rparr>,
               m_velocity := \<lparr>vec_x = Fin 0, vec_y = Fin 0\<rparr>\<rparr> = s"
    using px py assms(2) by (cases s, cases "m_position s") simp
  have "update_square World_default s gen =
          (s\<lparr>m_position := \<lparr>vec_x = Fin a, vec_y = F\<rparr>,
             m_velocity := \<lparr>vec_x = Fin 0, vec_y = Fin 0\<rparr>\<rparr>, gen)"
    using right left floor ceil ng unfolding update_square_def p_def[symmetric]
    by (simp add: Let_def) (simp add: p_eq method_defs F_def double_of_int_0 round64_0 lit_095)
  then have "update_square World_default s gen = (s, gen)" unfolding s_eq .
  moreover have "vec_y (m_velocity p) = Fin (1 / 2)" by (simp add: p_eq)
  ultimately show ?thesis using floor ng by (simp add: p_def)
qed

theorem rest_on_floor_witness:
  "(let s = \<lparr>m_size = \<lparr>vec_x = Fin 100, vec_y = Fin 100\<rparr>,
             m_position = \<lparr>vec_x = Fin 270, vec_y = Fin 380\<rparr>,
             m_velocity = \<lparr>vec_x = Fin 0, vec_y = Fin 0\<rparr>, m_color = Color_default\<rparr>
    in is_Square s
       \<and> m_velocity s = \<lparr>vec_x = Fin 0, vec_y = Fin 0\<rparr>
       \<and> feq (vec_y (m_position s)) (fsub (double_of_int gScreenHeight) (vec_y (m_size s)))
       \<and> flt (double_of_int 0) (vec_x (m_position s))
       \<and> flt (vec_x (m_position s)) (fsub (double_of_int gScreenWidth) (vec_x (m_size s)))
       \<and> \<not> is_on_ceiling (integrate World_default s)
       \<and> update_square World_default s (\<lambda>n. 0) = (s, \<lambda>n. 0))"
proof -
  define s where "s = \<lparr>m_size = \<lparr>vec_x = Fin 100, vec_y = Fin 100\<rparr>,
             m_position = \<lparr>vec_x = Fin 270, vec_y = Fin 380\<rparr>,
             m_velocity = \<lparr>vec_x = Fin 0, vec_y = Fin 0\<rparr>, m_color = Color_default\<rparr>"
  have h1: "is_Square s" unfolding s_def by code_simp
  have h2: "m_velocity s = \<lparr>vec_x = Fin 0, vec_y = Fin 0\<rparr>" by (simp add: s_def)
  have h3: "feq (vec_y (m_position s)) (fsub (double_of_int gScreenHeight) (vec_y (m_size s)))"
    unfolding s_def by code_simp
  have h4: "flt (double_of_int 0) (vec_x (m_position s))" unfolding s_def by code_simp
  have h5: "flt (vec_x (m_position s)) (fsub (double_of_int gScreenWidth) (vec_x (m_size s)))"
    unfolding s_def by code_simp
  have h6: "\<not> is_on_ceiling (integrate World_default s)" unfolding s_def by code_simp
  show ?thesis
    using rest_on_floor[OF h1 h2 h3 h4 h5 h6, of "\<lambda>n. 0"] h1 h2 h3 h4 h5 h6
    unfolding s_def Let_def by blast
qed

text \<open>
  Without the condition on the ceiling the claim fails. A square taller than the screen,
  of height 500, lies on the floor at y = -20; after the move it is at y = -19.5, on the
  floor and on the ceiling at once, and the ceiling branch, which runs last, puts it at
  y = 0.
\<close>

theorem rest_on_floor_counterexample:
  "(let s = \<lparr>m_size = \<lparr>vec_x = Fin 100, vec_y = Fin 500\<rparr>,
             m_position = \<lparr>vec_x = Fin 270, vec_y = Fin (- 20)\<rparr>,
             m_velocity = \<lparr>vec_x = Fin 0, vec_y = Fin 0\<rparr>, m_color = Color_default\<rparr>
    in is_Square s
       \<and> feq (vec_y (m_position s)) (fsub (double_of_int gScreenHeight) (vec_y (m_size s)))
       \<and> flt (double_of_int 0) (vec_x (m_position s))
       \<and> flt (vec_x (m_position s)) (fsub (double_of_int gScreenWidth) (vec_x (m_size s)))
       \<and> m_position (fst (update_square World_default s (\<lambda>n. 0))) =
           \<lparr>vec_x = Fin 270, vec_y = Fin 0\<rparr>
       \<and> \<not> feq (vec_y (m_position (fst (update_square World_default s (\<lambda>n. 0)))))
             (vec_y (m_position s)))"
  by code_simp

section \<open>Random colours and velocities\<close>

lemma small_ints_exact: "\<forall>a \<in> set [- 20 .. 20]. double_of_int a = Fin (of_int a)"
  by code_simp

lemma double_of_int_small:
  assumes "- 20 \<le> a" "a \<le> 20"
  shows "double_of_int a = Fin (of_int a)"
proof -
  from assms have "a \<in> set [- 20 .. 20]" by (simp only: set_upto atLeastAtMost_iff)
  with small_ints_exact show ?thesis by blast
qed

lemma get_random_int_range:
  assumes "low \<le> high"
  shows "low \<le> fst (get_random_int low high gen)" "fst (get_random_int low high gen) \<le> high"
proof -
  have pos: "0 < high - low + 1" using assms by simp
  have "0 \<le> int (gen 0) mod (high - low + 1)"
    using pos by (rule pos_mod_sign)
  moreover have "int (gen 0) mod (high - low + 1) < high - low + 1"
    using pos by (rule pos_mod_bound)
  ultimately show "low \<le> fst (get_random_int low high gen)"
    and "fst (get_random_int low high gen) \<le> high"
    unfolding get_random_int_def fst_conv by linarith+
qed

lemma get_random_color_val:
  "get_random_color gen =
     (\<lparr>red = word_of_int (int (gen 0) mod 256), green = word_of_int (int (gen 1) mod 256),
       blue = word_of_int (int (gen 2) mod 256), alpha = 0xff\<rparr>, \<lambda>n. gen (n + 3))"
  by (simp add: get_random_color_def get_random_int_def Color_default_def Let_def
      eval_nat_numeral)

lemma channel_range: "0 \<le> int n mod 256" "int n mod 256 \<le> 255"
proof -
  have "int n mod 256 < 256" by simp
  then show "int n mod 256 \<le> 255" by linarith
qed simp

lemma uint_channel: "uint (word_of_int (int n mod 256) :: 8 word) = int n mod 256"
  by (simp add: uint_word_of_int take_bit_eq_mod)

lemma get_random_velocity_val:
  "get_random_velocity gen =
     (\<lparr>vec_x = double_of_int (- 20 + int (gen 0) mod 41),
       vec_y = double_of_int (- 20 + int (gen 1) mod 41)\<rparr>, \<lambda>n. gen (n + 2))"
  by (simp add: get_random_velocity_def get_random_int_def Let_def eval_nat_numeral)

lemma make_square_val:
  "make_square gen =
     (\<lparr>m_size = \<lparr>vec_x = Fin 100, vec_y = Fin 100\<rparr>,
       m_position = \<lparr>vec_x = Fin 320, vec_y = Fin 240\<rparr>,
       m_velocity = \<lparr>vec_x = Fin (of_int (- 20 + int (gen 0) mod 41)),
                     vec_y = Fin (of_int (- 20 + int (gen 1) mod 41))\<rparr>,
       m_color = \<lparr>red = word_of_int (int (gen 2) mod 256),
                  green = word_of_int (int (gen 3) mod 256),
                  blue = word_of_int (int (gen 4) mod 256), alpha = 0xff\<rparr>\<rparr>,
      \<lambda>n. gen (n + 5))"
proof -
  have l100: "lit 100 = Fin 100" by code_simp
  have d320: "double_of_int (gScreenWidth div 2) = Fin 320" by code_simp
  have d240: "double_of_int (gScreenHeight div 2) = Fin 240" by code_simp
  have vx: "double_of_int (- 20 + int (gen 0) mod 41) = Fin (of_int (- 20 + int (gen 0) mod 41))"
    by (rule double_of_int_small) simp_all
  have vy: "double_of_int (- 20 + int (gen 1) mod 41) = Fin (of_int (- 20 + int (gen 1) mod 41))"
    by (rule double_of_int_small) simp_all
  show ?thesis
    unfolding make_square_def get_random_velocity_val get_random_color_val
    unfolding vx vy
    by (simp add: Let_def new_Square_def setColor_def l100 d320 d240 eval_nat_numeral)
qed


text \<open>
  C9. A colour made by \<open>get_random_color\<close> has alpha 255: the colour starts as the default
  colour and only red, green and blue are assigned. The three channels are the three
  values drawn, each in [0, 255], so the conversion to \<open>Uint8\<close> loses nothing. Hence the
  update of a square either keeps its colour or leaves it with an opaque one, and the
  square \<open>init_squares\<close> builds is opaque.
\<close>

theorem random_colors_opaque:
  "alpha (fst (get_random_color gen)) = 0xff
   \<and> uint (red (fst (get_random_color gen))) = int (gen 0) mod 256
   \<and> uint (green (fst (get_random_color gen))) = int (gen 1) mod 256
   \<and> uint (blue (fst (get_random_color gen))) = int (gen 2) mod 256
   \<and> 0 \<le> uint (red (fst (get_random_color gen))) \<and> uint (red (fst (get_random_color gen))) \<le> 255
   \<and> 0 \<le> uint (green (fst (get_random_color gen))) \<and> uint (green (fst (get_random_color gen))) \<le> 255
   \<and> 0 \<le> uint (blue (fst (get_random_color gen))) \<and> uint (blue (fst (get_random_color gen))) \<le> 255
   \<and> (m_color (fst (update_square w s gen)) = m_color s
        \<or> alpha (m_color (fst (update_square w s gen))) = 0xff)
   \<and> alpha (m_color (fst (make_square gen))) = 0xff"
proof -
  have "m_color (fst (update_square w s gen)) = m_color s
        \<or> alpha (m_color (fst (update_square w s gen))) = 0xff"
    by (simp add: update_square_def Let_def method_defs get_random_color_val integrate_color)
  then show ?thesis
    by (simp add: get_random_color_val make_square_val uint_channel channel_range)
qed

section \<open>Building and deleting squares\<close>

lemma init_squares_step_val:
  "init_squares_step st =
     st\<lparr>heap := (heap st)(next_obj st \<mapsto> fst (make_square (gen_state st))),
        next_obj := Suc (next_obj st), gSquares := gSquares st @ [next_obj st],
        gen_state := snd (make_square (gen_state st))\<rparr>"
  by (simp add: init_squares_step_def Let_def split_def)

lemma init_squares_loop_next: "next_obj (init_squares_loop n st) = next_obj st + n"
  by (induction n arbitrary: st) (simp_all add: init_squares_step_val)

lemma init_squares_loop_gSquares:
  "gSquares (init_squares_loop n st) = gSquares st @ [next_obj st ..< next_obj st + n]"
proof (induction n arbitrary: st)
  case 0
  show ?case by simp
next
  case (Suc n)
  have "[next_obj st ..< next_obj st + Suc n] = next_obj st # [Suc (next_obj st) ..< Suc (next_obj st) + n]"
    by (simp add: upt_conv_Cons)
  then show ?case by (simp add: Suc init_squares_step_val)
qed

lemma init_squares_loop_old:
  "ptr < next_obj st \<Longrightarrow> heap (init_squares_loop n st) ptr = heap st ptr"
proof (induction n arbitrary: st)
  case 0
  show ?case by simp
next
  case (Suc n)
  have "heap (init_squares_loop n (init_squares_step st)) ptr = heap (init_squares_step st) ptr"
    using Suc.prems by (intro Suc.IH) (simp add: init_squares_step_val)
  then show ?case using Suc.prems by (simp add: init_squares_step_val)
qed

lemma init_squares_loop_new:
  assumes "next_obj st \<le> ptr" "ptr < next_obj st + n"
  shows "\<exists>g. heap (init_squares_loop n st) ptr = Some (fst (make_square g))"
  using assms
proof (induction n arbitrary: st)
  case 0
  then show ?case by simp
next
  case (Suc n)
  show ?case
  proof (cases "ptr = next_obj st")
    case True
    then have "heap (init_squares_loop n (init_squares_step st)) ptr = heap (init_squares_step st) ptr"
      by (intro init_squares_loop_old) (simp add: init_squares_step_val)
    then show ?thesis using True by (auto simp: init_squares_step_val)
  next
    case False
    then have "\<exists>g. heap (init_squares_loop n (init_squares_step st)) ptr = Some (fst (make_square g))"
      using Suc.prems by (intro Suc.IH) (simp_all add: init_squares_step_val)
    then show ?thesis by simp
  qed
qed

lemma init_squares_loop_dom:
  "dom (heap (init_squares_loop n st)) = dom (heap st) \<union> {next_obj st ..< next_obj st + n}"
proof (induction n arbitrary: st)
  case 0
  show ?case by simp
next
  case (Suc n)
  show ?case by (auto simp: Suc init_squares_step_val)
qed

lemma delete_all_val:
  assumes "set ptrs \<subseteq> dom (heap st)" "distinct ptrs"
  shows "delete_all ptrs st = Some (st\<lparr>heap := \<lambda>p. if p \<in> set ptrs then None else heap st p\<rparr>)"
  using assms
proof (induction ptrs arbitrary: st)
  case Nil
  show ?case by simp
next
  case (Cons ptr ptrs)
  obtain sq where sq: "heap st ptr = Some sq" using Cons.prems(1) by auto
  let ?st = "st\<lparr>heap := (heap st)(ptr := None)\<rparr>"
  have "set ptrs \<subseteq> dom (heap ?st)" using Cons.prems by auto
  moreover have "distinct ptrs" using Cons.prems by simp
  ultimately have "delete_all ptrs ?st =
      Some (?st\<lparr>heap := \<lambda>p. if p \<in> set ptrs then None else heap ?st p\<rparr>)"
    by (rule Cons.IH)
  moreover have "(\<lambda>p. if p \<in> set ptrs then None else heap ?st p) =
      (\<lambda>p. if p \<in> set (ptr # ptrs) then None else heap st p)"
    by auto
  ultimately show ?case using sq by simp
qed

lemma reinit_squares_val:
  assumes "heap_ok st"
  shows "reinit_squares st =
    Some (init_squares (st\<lparr>heap := \<lambda>p. if p \<in> set (gSquares st) then None else heap st p,
                           gSquares := []\<rparr>))"
  using assms delete_all_val[of "gSquares st" st] by (simp add: reinit_squares_def heap_ok_def)

lemma heap_ok_below:
  assumes "heap_ok st"
  shows "set (gSquares st) \<subseteq> {..<next_obj st}"
proof -
  have "set (gSquares st) \<subseteq> dom (heap st)" "dom (heap st) \<subseteq> {..<next_obj st}"
    using assms by (simp_all add: heap_ok_def)
  then show ?thesis by (rule order_trans)
qed

lemma heap_ok_init_squares_loop:
  assumes "heap_ok st"
  shows "heap_ok (init_squares_loop n st)"
proof -
  have "set (gSquares st) \<subseteq> {..<next_obj st}" using assms by (rule heap_ok_below)
  then have "set (gSquares st) \<inter> {next_obj st ..< next_obj st + n} = {}" by auto
  then show ?thesis
    using assms
    by (auto simp: heap_ok_def init_squares_loop_dom init_squares_loop_next
        init_squares_loop_gSquares)
qed


lemma sizes_kept_refl: "dom (heap st) \<subseteq> {..<next_obj st} \<Longrightarrow> sizes_kept st st"
  by (auto simp: sizes_kept_def)

lemma sizes_kept_trans:
  assumes "sizes_kept a b" "sizes_kept b c"
  shows "sizes_kept a c"
  unfolding sizes_kept_def
proof (intro conjI allI impI)
  show "next_obj a \<le> next_obj c" using assms by (simp add: sizes_kept_def)
  fix ptr assume lt: "ptr < next_obj a"
  then have ltb: "ptr < next_obj b" using assms(1) by (simp add: sizes_kept_def)
  from assms(1) lt have ab: "heap b ptr = None
      \<or> (heap a ptr \<noteq> None \<and> map_option m_size (heap b ptr) = map_option m_size (heap a ptr))"
    by (simp add: sizes_kept_def)
  from assms(2) ltb have bc: "heap c ptr = None
      \<or> (heap b ptr \<noteq> None \<and> map_option m_size (heap c ptr) = map_option m_size (heap b ptr))"
    by (simp add: sizes_kept_def)
  from ab bc show "heap c ptr = None
      \<or> (heap a ptr \<noteq> None \<and> map_option m_size (heap c ptr) = map_option m_size (heap a ptr))"
    by auto
qed

lemma make_square_size: "m_size (fst (make_square g)) = \<lparr>vec_x = Fin 100, vec_y = Fin 100\<rparr>"
  by (simp add: make_square_val)

lemma squares_sized_iff:
  "squares_sized st \<longleftrightarrow>
     (\<forall>ptr \<in> set (gSquares st). \<exists>sq. heap st ptr = Some sq
        \<and> m_size sq = \<lparr>vec_x = Fin 100, vec_y = Fin 100\<rparr>)"
  by (auto simp: squares_sized_def list_all_iff)

lemma reinit_squares_props:
  assumes "heap_ok st"
  obtains st' where "reinit_squares st = Some st'"
    and "gSquares st' = [next_obj st ..< next_obj st + 4]"
    and "next_obj st' = next_obj st + 4"
    and "\<And>ptr. ptr < next_obj st \<Longrightarrow>
           heap st' ptr = (if ptr \<in> set (gSquares st) then None else heap st ptr)"
    and "\<And>ptr. next_obj st \<le> ptr \<Longrightarrow> ptr < next_obj st + 4 \<Longrightarrow>
           \<exists>g. heap st' ptr = Some (fst (make_square g))"
    and "heap_ok st'"
proof -
  define st1 where "st1 = st\<lparr>heap := \<lambda>p. if p \<in> set (gSquares st) then None else heap st p,
                           gSquares := []\<rparr>"
  define st' where "st' = init_squares st1"
  have r: "reinit_squares st = Some st'"
    unfolding st'_def st1_def by (rule reinit_squares_val[OF assms])
  have n1: "next_obj st1 = next_obj st" by (simp add: st1_def)
  have ok1: "heap_ok st1" using assms by (auto simp: heap_ok_def st1_def dom_def)
  show thesis
  proof
    show "reinit_squares st = Some st'" by (rule r)
    show "gSquares st' = [next_obj st ..< next_obj st + 4]"
      by (simp add: st'_def init_squares_def init_squares_loop_gSquares gNumSquares_def st1_def)
    show "next_obj st' = next_obj st + 4"
      by (simp add: st'_def init_squares_def init_squares_loop_next gNumSquares_def n1)
    show "heap st' ptr = (if ptr \<in> set (gSquares st) then None else heap st ptr)"
      if "ptr < next_obj st" for ptr
      using that by (simp add: st'_def init_squares_def init_squares_loop_old n1) (simp add: st1_def)
    show "\<exists>g. heap st' ptr = Some (fst (make_square g))"
      if "next_obj st \<le> ptr" "ptr < next_obj st + 4" for ptr
      unfolding st'_def init_squares_def gNumSquares_def
      using that by (intro init_squares_loop_new) (simp_all add: n1)
    show "heap_ok st'"
      unfolding st'_def init_squares_def by (rule heap_ok_init_squares_loop[OF ok1])
  qed
qed


section \<open>The reset\<close>



section \<open>Squares hold values of the type\<close>

text \<open>
  The squares the program builds satisfy \<open>is_Square\<close>, and the update keeps it: every
  field is the result of a rounding, a conversion or a literal.
\<close>

lemma is_double_lit: "is_double (lit q)"
  by (simp add: lit_def is_double_round64)

lemma is_double_double_of_int: "is_double (double_of_int i)"
  by (simp add: double_of_int_def is_double_round64)

lemma is_Square_make_square: "is_Square (fst (make_square g))"
proof -
  have "is_Vec2 (fst (get_random_velocity g))"
    by (simp add: get_random_velocity_def split_def Let_def is_Vec2_def is_double_double_of_int)
  then show ?thesis
    by (simp add: make_square_def split_def Let_def is_Square_def is_Vec2_def new_Square_def
        setColor_def is_double_lit is_double_double_of_int)
qed

lemma is_Square_integrate:
  assumes "is_Square s" "is_double (air_resistance w)"
  shows "is_Square (integrate w s)"
  using assms
  by (simp add: integrate_def method_defs is_Square_def is_Vec2_def is_double_fadd is_double_fmul)

lemma is_Square_update_square:
  assumes "is_Square s"
  shows "is_Square (fst (update_square World_default s gen))"
proof -
  have w: "is_double (air_resistance World_default)" "is_double (fneg (damping World_default))"
    by (simp_all add: World_default_def is_double_lit is_double_fneg)
  have p: "is_Square (integrate World_default s)" using assms w(1) by (rule is_Square_integrate)
  show ?thesis
    using p w(2)
    by (simp add: update_square_def Let_def split_def method_defs is_Square_def is_Vec2_def
        is_double_fmul is_double_fsub is_double_lit is_double_double_of_int)
qed

section \<open>The size of a square\<close>

lemma update_square_size: "m_size (fst (update_square w s gen)) = m_size s"
  by (simp add: update_square_def Let_def method_defs split_def integrate_size)

lemma update_squares_loop_props:
  assumes "set ptrs \<subseteq> dom (heap st)"
  shows "\<exists>st'. update_squares_loop ptrs st = Some st'
     \<and> gSquares st' = gSquares st \<and> next_obj st' = next_obj st
     \<and> (\<forall>ptr. heap st' ptr = None \<longleftrightarrow> heap st ptr = None)
     \<and> (\<forall>ptr. map_option m_size (heap st' ptr) = map_option m_size (heap st ptr))"
  using assms
proof (induction ptrs arbitrary: st)
  case Nil
  show ?case by simp
next
  case (Cons ptr ptrs)
  obtain sq where sq: "heap st ptr = Some sq" using Cons.prems by auto
  define r where "r = update_square (gWorld st) sq (gen_state st)"
  define st1 where "st1 = st\<lparr>heap := (heap st)(ptr \<mapsto> fst r), gen_state := snd r\<rparr>"
  have step: "update_squares_loop (ptr # ptrs) st = update_squares_loop ptrs st1"
    by (simp add: sq st1_def r_def split_def Let_def)
  have "set ptrs \<subseteq> dom (heap st1)" using Cons.prems by (auto simp: st1_def)
  then obtain st' where st': "update_squares_loop ptrs st1 = Some st'"
    "gSquares st' = gSquares st1" "next_obj st' = next_obj st1"
    "\<forall>p. heap st' p = None \<longleftrightarrow> heap st1 p = None"
    "\<forall>p. map_option m_size (heap st' p) = map_option m_size (heap st1 p)"
    using Cons.IH by blast
  have sz: "map_option m_size (heap st1 p) = map_option m_size (heap st p)" for p
    by (simp add: st1_def r_def sq update_square_size)
  have nn: "heap st1 p = None \<longleftrightarrow> heap st p = None" for p
    by (simp add: st1_def sq)
  show ?case
    unfolding step using st' sz nn by (intro exI[of _ st']) (simp add: st1_def)
qed

lemma update_squares_props:
  assumes "heap_ok st" "squares_sized st"
  obtains st' where "update_squares st = Some st'" "heap_ok st'" "squares_sized st'"
    "sizes_kept st st'"
proof -
  have "set (gSquares st) \<subseteq> dom (heap st)" using assms(1) by (simp add: heap_ok_def)
  then obtain st' where st': "update_squares_loop (gSquares st) st = Some st'"
    "gSquares st' = gSquares st" "next_obj st' = next_obj st"
    "\<forall>p. heap st' p = None \<longleftrightarrow> heap st p = None"
    "\<forall>p. map_option m_size (heap st' p) = map_option m_size (heap st p)"
    using update_squares_loop_props by blast
  have d: "dom (heap st') = dom (heap st)" using st'(4) by (auto simp: dom_def)
  show thesis
  proof
    show "update_squares st = Some st'" by (simp add: update_squares_def st')
    show "heap_ok st'" using assms(1) by (simp add: heap_ok_def st' d)
    show "squares_sized st'" using assms(2) by (simp add: squares_sized_def st')
    show "sizes_kept st st'" using st' by (auto simp: sizes_kept_def)
  qed
qed

lemma reinit_squares_inv:
  assumes "heap_ok st"
  obtains st' where "reinit_squares st = Some st'" "heap_ok st'" "squares_sized st'"
    "sizes_kept st st'"
proof -
  obtain st' where r: "reinit_squares st = Some st'"
    and g: "gSquares st' = [next_obj st ..< next_obj st + 4]"
    and n: "next_obj st' = next_obj st + 4"
    and old: "\<And>ptr. ptr < next_obj st \<Longrightarrow>
           heap st' ptr = (if ptr \<in> set (gSquares st) then None else heap st ptr)"
    and new: "\<And>ptr. next_obj st \<le> ptr \<Longrightarrow> ptr < next_obj st + 4 \<Longrightarrow>
           \<exists>g. heap st' ptr = Some (fst (make_square g))"
    and ok: "heap_ok st'"
    using reinit_squares_props[OF assms] by metis
  have "squares_sized st'"
    unfolding squares_sized_iff g using new make_square_size by fastforce
  moreover have "sizes_kept st st'"
    unfolding sizes_kept_def using n old assms
    by (auto simp: heap_ok_def)
  ultimately show thesis using r ok that by blast
qed

lemma poll_events_inv:
  assumes "heap_ok st" "squares_sized st"
  shows "\<exists>quit' st'. poll_events es (quit, st) = Some (quit', st')
     \<and> heap_ok st' \<and> squares_sized st' \<and> sizes_kept st st'"
  using assms
proof (induction es arbitrary: quit st)
  case Nil
  then show ?case by (auto simp: heap_ok_def intro: sizes_kept_refl)
next
  case (Cons e es)
  show ?case
  proof (cases "e = SDL_KEYDOWN SDLK_SPACE")
    case True
    obtain st1 where st1: "reinit_squares st = Some st1" "heap_ok st1" "squares_sized st1"
      "sizes_kept st st1"
      using reinit_squares_inv[OF Cons.prems(1)] by blast
    obtain quit' st' where "poll_events es (quit, st1) = Some (quit', st')"
      "heap_ok st'" "squares_sized st'" "sizes_kept st1 st'"
      using Cons.IH[OF st1(2,3)] by blast
    then show ?thesis
      using True st1 sizes_kept_trans by (intro exI[of _ quit'] exI[of _ st']) auto
  next
    case False
    obtain q where step: "poll_events (e # es) (quit, st) = poll_events es (q, st)"
      using False by (cases e) auto
    show ?thesis unfolding step using Cons.IH[OF Cons.prems] by blast
  qed
qed

lemma frame_inv:
  assumes "heap_ok st" "squares_sized st" "frame es st = Some (quit, st')"
  shows "heap_ok st' \<and> squares_sized st' \<and> sizes_kept st st'"
proof -
  obtain q1 st1 where p: "poll_events es (False, st) = Some (q1, st1)"
    and i1: "heap_ok st1" "squares_sized st1" "sizes_kept st st1"
    using poll_events_inv[OF assms(1,2)] by blast
  obtain st2 where u: "update_squares st1 = Some st2"
    and i2: "heap_ok st2" "squares_sized st2" "sizes_kept st1 st2"
    using update_squares_props[OF i1(1,2)] by blast
  have "st' = st2"
    using assms(3) by (simp add: frame_def p u split: option.splits)
  then show ?thesis using i1 i2 sizes_kept_trans by blast
qed

lemma main_loop_inv:
  assumes "heap_ok st0" "squares_sized st0" "main_loop frames st0 = In_loop st"
  shows "heap_ok st \<and> squares_sized st"
  using assms
proof (induction frames arbitrary: st0)
  case Nil
  then show ?case by simp
next
  case (Cons es rest)
  obtain quit st1 where f: "frame es st0 = Some (quit, st1)"
    using Cons.prems(3) by (cases "frame es st0") auto
  have nq: "\<not> quit" and rest: "main_loop rest st1 = In_loop st"
    using Cons.prems(3) by (simp_all add: f split: if_splits)
  have "heap_ok st1 \<and> squares_sized st1" using frame_inv[OF Cons.prems(1,2) f] by simp
  then show ?case using Cons.IH rest by blast
qed

lemma squares_sized_init_squares_loop:
  assumes "squares_sized st" "heap_ok st"
  shows "squares_sized (init_squares_loop n st)"
  unfolding squares_sized_iff init_squares_loop_gSquares
proof
  fix ptr assume "ptr \<in> set (gSquares st @ [next_obj st ..< next_obj st + n])"
  then consider "ptr \<in> set (gSquares st)" | "next_obj st \<le> ptr" "ptr < next_obj st + n" by auto
  then show "\<exists>sq. heap (init_squares_loop n st) ptr = Some sq
      \<and> m_size sq = \<lparr>vec_x = Fin 100, vec_y = Fin 100\<rparr>"
  proof cases
    case 1
    then have "ptr < next_obj st" using heap_ok_below[OF assms(2)] by auto
    then show ?thesis using 1 assms(1) by (simp add: init_squares_loop_old squares_sized_iff)
  next
    case 2
    then show ?thesis using init_squares_loop_new make_square_size by metis
  qed
qed

lemma main_start:
  assumes "main env seed frames = In_loop st"
  shows "SDL_Init env = 0"
    and "\<exists>st0. heap_ok st0 \<and> squares_sized st0 \<and> main_loop frames st0 = In_loop st"
proof -
  show i: "SDL_Init env = 0"
    using assms by (auto simp: main_def init_def split: if_splits)
  define st0 where "st0 = init_squares (globals_start seed
      \<lparr>gWindow := SDL_CreateWindow env, gRenderer := SDL_CreateRenderer env,
       gWorld := World_default, gBackgroundColor := Color_default\<rparr>)"
  have m: "main_loop frames st0 = In_loop st"
    using assms i by (simp add: main_def init_def st0_def)
  have "heap_ok st0" unfolding st0_def init_squares_def
    by (rule heap_ok_init_squares_loop) (simp add: heap_ok_def globals_start_def)
  moreover have "squares_sized st0" unfolding st0_def init_squares_def
    by (rule squares_sized_init_squares_loop)
      (simp_all add: heap_ok_def globals_start_def squares_sized_def)
  ultimately show "\<exists>st0. heap_ok st0 \<and> squares_sized st0 \<and> main_loop frames st0 = In_loop st"
    using m by blast
qed


text \<open>
  C8. Whenever the program is in its main loop, after any frames and any events, every
  square of the vector has the size (100, 100), both components positive. Whatever the
  next frame brings (events with or without a reset, the drawing, the update), an object
  alive before and after it has the same size. The update of one square never changes its
  size, for any square and any world. \<open>draw_squares\<close> returns the calls on the renderer
  and no globals, and \<open>setSize\<close> is called nowhere.
\<close>

theorem sizes_constant:
  assumes "main env seed frames = In_loop st"
  shows "(\<forall>ptr \<in> set (gSquares st). \<exists>sq. heap st ptr = Some sq
           \<and> m_size sq = \<lparr>vec_x = Fin 100, vec_y = Fin 100\<rparr>
           \<and> flt (double_of_int 0) (vec_x (m_size sq)) \<and> flt (double_of_int 0) (vec_y (m_size sq)))
       \<and> (\<forall>es quit st' ptr sq sq'.
             frame es st = Some (quit, st') \<longrightarrow> heap st ptr = Some sq \<longrightarrow> heap st' ptr = Some sq'
             \<longrightarrow> m_size sq' = m_size sq)
       \<and> (\<forall>w sq gen. m_size (fst (update_square w sq gen)) = m_size sq)"
proof -
  obtain st0 where "heap_ok st0" "squares_sized st0" "main_loop frames st0 = In_loop st"
    using main_start(2)[OF assms] by blast
  then have ok: "heap_ok st" and sz: "squares_sized st" using main_loop_inv by blast+
  have a: "\<forall>ptr \<in> set (gSquares st). \<exists>sq. heap st ptr = Some sq
           \<and> m_size sq = \<lparr>vec_x = Fin 100, vec_y = Fin 100\<rparr>
           \<and> flt (double_of_int 0) (vec_x (m_size sq)) \<and> flt (double_of_int 0) (vec_y (m_size sq))"
    using sz unfolding squares_sized_iff by (fastforce simp: double_of_int_0)
  have b: "m_size sq' = m_size sq"
    if "frame es st = Some (quit, st')" "heap st ptr = Some sq" "heap st' ptr = Some sq'"
    for es quit st' ptr sq sq'
  proof -
    have k: "sizes_kept st st'" using frame_inv[OF ok sz that(1)] by simp
    have "ptr < next_obj st" using ok that(2) by (auto simp: heap_ok_def)
    then show ?thesis using k that(2,3) by (auto simp: sizes_kept_def)
  qed
  show ?thesis using a b update_square_size by blast
qed

theorem sizes_constant_witness:
  "main \<lparr>SDL_Init = 0, SDL_CreateWindow = Some 1, SDL_CreateRenderer = Some 2\<rparr> (\<lambda>n. 0) []
     = In_loop (init_squares (globals_start (\<lambda>n. 0)
         \<lparr>gWindow := Some 1, gRenderer := Some 2\<rparr>))
   \<and> squares_sized (init_squares (globals_start (\<lambda>n. 0)
         \<lparr>gWindow := Some 1, gRenderer := Some 2\<rparr>))
   \<and> \<not> (\<exists>es quit st' ptr sq sq'.
          frame es (init_squares (globals_start (\<lambda>n. 0)
             \<lparr>gWindow := Some 1, gRenderer := Some 2\<rparr>)) = Some (quit, st')
        \<and> heap (init_squares (globals_start (\<lambda>n. 0)
             \<lparr>gWindow := Some 1, gRenderer := Some 2\<rparr>)) ptr = Some sq
        \<and> heap st' ptr = Some sq' \<and> m_size sq' \<noteq> m_size sq)"
proof -
  have m: "main \<lparr>SDL_Init = 0, SDL_CreateWindow = Some 1, SDL_CreateRenderer = Some 2\<rparr> (\<lambda>n. 0) []
     = In_loop (init_squares (globals_start (\<lambda>n. 0)
         \<lparr>gWindow := Some 1, gRenderer := Some 2\<rparr>))"
    by (simp add: main_def init_def globals_start_def)
  show ?thesis
    using sizes_constant[OF m] m unfolding squares_sized_iff by blast
qed

section \<open>Failures during initialisation\<close>

lemma init_failure_exits:
  assumes "SDL_Init env \<noteq> 0"
  shows "main env seed frames = Exit 1"
  using assms by (simp add: main_def init_def)

lemma main_loop_not_Exit_1: "main_loop frames st \<noteq> Exit 1"
  by (induction frames arbitrary: st) (auto split: option.splits)


text \<open>
  C7 does not hold of the code. \<open>init\<close> tests the result of \<open>SDL_Init\<close> only. When that
  call succeeds and \<open>SDL_CreateWindow\<close> returns null, \<open>init\<close> still returns 1: the process
  enters the main loop with a null window, and it never exits with status 1, whatever the
  frames bring. The same holds when \<open>SDL_CreateRenderer\<close> returns null. Only the failure
  of \<open>SDL_Init\<close> takes the way out the claim describes (\<open>init_failure_exits\<close>).
\<close>

theorem window_failure_unchecked:
  "main \<lparr>SDL_Init = 0, SDL_CreateWindow = None, SDL_CreateRenderer = r\<rparr> seed frames \<noteq> Exit 1
   \<and> (\<exists>st. main \<lparr>SDL_Init = 0, SDL_CreateWindow = None, SDL_CreateRenderer = r\<rparr> seed [] = In_loop st
         \<and> gWindow st = None)
   \<and> main \<lparr>SDL_Init = 0, SDL_CreateWindow = w, SDL_CreateRenderer = None\<rparr> seed frames \<noteq> Exit 1"
proof -
  have "gWindow (init_squares_loop n st) = gWindow st" for n st
    by (induction n arbitrary: st) (simp_all add: init_squares_step_val)
  then show ?thesis
    by (simp add: main_def init_def main_loop_not_Exit_1 init_squares_def)
qed

end
